theory Spec2Isabelle
  imports Complex_Main "HOL-Library.Sublist" "HOL-Library.Char_ord"
    "HOL-Library.List_Lexorder" "HOL-Library.Multiset"
begin

section \<open>Numbers\<close>

text \<open>
  The route finder computes with JavaScript numbers. They are modelled as real numbers
  under exact arithmetic; the one non-finite value the code produces on purpose,
  \<^verbatim>\<open>Infinity\<close>, is a constructor of its own where a function can return it. Rounding is
  modelled where it changes the outcome: in \<open>haversineDistance\<close>, whose result is \<^verbatim>\<open>NaN\<close>
  when rounding pushes an intermediate value out of range.
\<close>

datatype jsnum = Finite real | Infinity

text \<open>
  Comparison, as \<^verbatim>\<open><=\<close> and \<^verbatim>\<open><\<close> compare a finite number with \<^verbatim>\<open>Infinity\<close>.
\<close>

instantiation jsnum :: linorder
begin

fun less_eq_jsnum :: "jsnum \<Rightarrow> jsnum \<Rightarrow> bool" where
  "less_eq_jsnum (Finite a) (Finite b) = (a \<le> b)"
| "less_eq_jsnum (Finite a) Infinity = True"
| "less_eq_jsnum Infinity (Finite b) = False"
| "less_eq_jsnum Infinity Infinity = True"

definition less_jsnum :: "jsnum \<Rightarrow> jsnum \<Rightarrow> bool" where
  "less_jsnum x y = (x \<le> y \<and> \<not> y \<le> x)"

instance
proof
  fix x y z :: jsnum
  show "(x < y) = (x \<le> y \<and> \<not> y \<le> x)" by (simp add: less_jsnum_def)
  show "x \<le> x" by (cases x) simp_all
  show "x \<le> y \<Longrightarrow> y \<le> z \<Longrightarrow> x \<le> z"
    by (cases x; cases y; cases z) simp_all
  show "x \<le> y \<Longrightarrow> y \<le> x \<Longrightarrow> x = y" by (cases x; cases y) simp_all
  show "x \<le> y \<or> y \<le> x" by (cases x; cases y) auto
qed

end

text \<open>
  \<^verbatim>\<open>w * x\<close> for a positive finite factor \<open>w\<close> (every factor the code multiplies a possibly
  infinite number with is a positive constant: 1/1000, 0.5, 0.2, 0.3), and \<^verbatim>\<open>x + y\<close>.
\<close>

fun js_scale :: "real \<Rightarrow> jsnum \<Rightarrow> jsnum" where
  "js_scale w (Finite x) = Finite (w * x)"
| "js_scale w Infinity = Infinity"

fun js_plus :: "jsnum \<Rightarrow> jsnum \<Rightarrow> jsnum" where
  "js_plus (Finite x) (Finite y) = Finite (x + y)"
| "js_plus _ _ = Infinity"

text \<open>
  A number that may be \<^verbatim>\<open>NaN\<close>. \<^verbatim>\<open>Math.sqrt\<close> of a negative number is \<^verbatim>\<open>NaN\<close> (\<open>None\<close>
  here), and \<^verbatim>\<open>NaN\<close> propagates through \<^verbatim>\<open>Math.atan2\<close> and through products. Under
  \<^verbatim>\<open>===\<close> (and \<^verbatim>\<open>==\<close>) \<^verbatim>\<open>NaN\<close> equals nothing, itself included.
\<close>

datatype jsresult = Number real | NaN

definition Math_sqrt :: "real \<Rightarrow> real option" where
  "Math_sqrt x = (if x < 0 then None else Some (sqrt x))"

fun strictEquals :: "jsresult \<Rightarrow> jsresult \<Rightarrow> bool" where
  "strictEquals (Number x) (Number y) = (x = y)"
| "strictEquals _ _ = False"

text \<open>\<^verbatim>\<open>Math.atan2(y, x)\<close>: the angle of the point \<open>(x, y)\<close>, in \<open>(-pi, pi]\<close>.\<close>

definition Math_atan2 :: "real \<Rightarrow> real \<Rightarrow> real" where
  "Math_atan2 y x =
     (if 0 < x then arctan (y / x)
      else if x < 0 then (if 0 \<le> y then arctan (y / x) + pi else arctan (y / x) - pi)
      else if 0 < y then pi / 2
      else if y < 0 then - (pi / 2)
      else 0)"

section \<open>Geodesic distance (googleMaps.ts)\<close>

text \<open>
  The code computes \<open>a\<close> in IEEE double precision and does not clamp it to \<open>[0, 1]\<close>. The
  rounding is an input of the model: \<open>roundingError\<close> is the error that the double
  computation of \<open>a\<close> carries, so that the computed \<open>a\<close> is the exact value plus that
  error. The steps after \<open>a\<close> are taken exactly. When the computed \<open>a\<close> exceeds 1,
  \<^verbatim>\<open>Math.sqrt(1 - a)\<close> is \<^verbatim>\<open>NaN\<close>, and so is the result.
\<close>

definition haversineDistance :: "real \<Rightarrow> real \<Rightarrow> real \<Rightarrow> real \<Rightarrow> real \<Rightarrow> jsresult" where
  "haversineDistance roundingError lat1 lng1 lat2 lng2 =
     (let R = 6371000;
          dLat = (lat2 - lat1) * pi / 180;
          dLng = (lng2 - lng1) * pi / 180;
          a = sin (dLat / 2) * sin (dLat / 2) +
              cos (lat1 * pi / 180) * cos (lat2 * pi / 180) *
              sin (dLng / 2) * sin (dLng / 2) + roundingError
      in case Math_sqrt a of
           None \<Rightarrow> NaN
         | Some y \<Rightarrow>
             (case Math_sqrt (1 - a) of
                None \<Rightarrow> NaN
              | Some x \<Rightarrow> Number (R * (2 * Math_atan2 y x))))"

text \<open>
  The distance under exact arithmetic (rounding error 0), where the result is never
  \<^verbatim>\<open>NaN\<close> (\<open>haversineDistance_exact\<close> below). The route finder is modelled under exact
  arithmetic.
\<close>

definition haversineExact :: "real \<Rightarrow> real \<Rightarrow> real \<Rightarrow> real \<Rightarrow> real" where
  "haversineExact lat1 lng1 lat2 lng2 =
     (case haversineDistance 0 lat1 lng1 lat2 lng2 of Number d \<Rightarrow> d | NaN \<Rightarrow> 0)"

text \<open>
  The haversine of the central angle between two coordinates given in degrees, as the
  textbook formula states it.
\<close>

definition hav_central :: "real \<Rightarrow> real \<Rightarrow> real \<Rightarrow> real \<Rightarrow> real" where
  "hav_central lat1 lng1 lat2 lng2 =
     (sin ((lat2 - lat1) * pi / 360))\<^sup>2 +
     cos (lat1 * pi / 180) * cos (lat2 * pi / 180) * (sin ((lng2 - lng1) * pi / 360))\<^sup>2"

section \<open>Data model (types/index.ts, routeFinder.ts)\<close>

record Location =
  lat :: real
  lng :: real
  address :: string

record TacoBellLocation = Location +
  placeId :: string
  name :: string

text \<open>
  The stop counts are whole numbers (the planner dialog sends \<^verbatim>\<open>parseInt\<close> of its inputs);
  \<open>maxApiCalls\<close> is any number, or absent.
\<close>

record RouteFinderConfig =
  minDistanceMeters :: real
  maxDistanceMeters :: real
  minTacoBells :: int
  maxTacoBells :: int
  searchRadiusMiles :: real
  maxApiCalls :: "real option"

datatype RouteFinderResult =
  Success (route: "TacoBellLocation list") (totalDistanceOf: jsnum)
| Failure (error: string)

record RouteCandidate =
  stops :: "TacoBellLocation list"
  totalDistance :: real
  score :: jsnum

text \<open>
  The haversine distance between two stops, as every call site of the route finder
  spells it out, under exact arithmetic.
\<close>

definition stopDistance :: "TacoBellLocation \<Rightarrow> TacoBellLocation \<Rightarrow> real" where
  "stopDistance a b = haversineExact (lat a) (lng a) (lat b) (lng b)"

section \<open>Route Scorer\<close>

text \<open>
  The distances of the consecutive legs \<open>route[i] \<rightarrow> route[i + 1]\<close>, for
  \<open>i = 0 .. route.length - 2\<close>: the body of the \<^verbatim>\<open>for\<close> loops of \<^verbatim>\<open>routeDistance\<close> and
  \<^verbatim>\<open>calculateSegmentSpacingVariance\<close>.
\<close>

fun segmentDistances :: "TacoBellLocation list \<Rightarrow> real list" where
  "segmentDistances (a # b # rest) = stopDistance a b # segmentDistances (b # rest)"
| "segmentDistances _ = []"

definition routeDistance :: "TacoBellLocation list \<Rightarrow> real" where
  "routeDistance rt =
     (if length rt < 2 then 0
      else foldl (\<lambda>total d. total + d) 0 (segmentDistances rt))"

definition loopnessPenalty :: "TacoBellLocation list \<Rightarrow> jsnum" where
  "loopnessPenalty rt =
     (if length rt < 2 then Infinity
      else Finite (stopDistance (rt ! 0) (rt ! (length rt - 1))))"

definition calculateSegmentSpacingVariance :: "TacoBellLocation list \<Rightarrow> jsnum" where
  "calculateSegmentSpacingVariance rt =
     (if length rt < 2 then Infinity
      else
        let ds = segmentDistances rt in
        if length ds = 0 then Infinity
        else
          let mean = foldl (\<lambda>sum d. sum + d) 0 ds / real (length ds);
              variance = foldl (\<lambda>sum d. sum + (d - mean)\<^sup>2) 0 ds / real (length ds);
              stdDev = sqrt variance
          in if mean > 0 then Finite ((stdDev / mean) * 1000) else Infinity)"

text \<open>
  \<^verbatim>\<open>scoreRoute\<close> returns the pair \<^verbatim>\<open>{ totalDistance, score }\<close>. The defaults of the source
  are \<open>targetRoadKm = 50\<close>, \<open>loopPenaltyWeight = 0.5\<close>, \<open>spacingVarianceWeight = 0.3\<close>,
  \<open>roadDistanceMultiplier = 1.18\<close>; the generator passes the weights 0.5 and 0.2.
\<close>

definition scoreRoute ::
  "TacoBellLocation list \<Rightarrow> real \<Rightarrow> real \<Rightarrow> real \<Rightarrow> real \<Rightarrow> real \<times> jsnum" where
  "scoreRoute rt targetRoadKm loopPenaltyWeight spacingVarianceWeight roadDistanceMultiplier =
     (let haversineDist = routeDistance rt;
          haversineKm = haversineDist / 1000;
          estimatedRoadKm = haversineKm * roadDistanceMultiplier;
          distanceDiff = \<bar>estimatedRoadKm - targetRoadKm\<bar>;
          loopPenalty = js_scale (1 / 1000) (loopnessPenalty rt);
          spacingVariance = calculateSegmentSpacingVariance rt;
          score = js_plus (js_plus (Finite distanceDiff) (js_scale loopPenaltyWeight loopPenalty))
                    (js_scale spacingVarianceWeight spacingVariance)
      in (haversineDist, score))"

section \<open>Candidate Route Generator\<close>

text \<open>
  The generator draws random numbers. The random source is an explicit input:
  \<^item> \<open>shuffle rs iter xs\<close> is the array that
    \<^verbatim>\<open>[...nearby].sort(() => Math.random() - 0.5)\<close> leaves in iteration \<open>iter\<close>;
  \<^item> \<open>random rs iter n k\<close> is the value of the \<open>k\<close>-th call (0 or 1) of \<^verbatim>\<open>Math.random()\<close>
    in the pass of the \<^verbatim>\<open>while\<close> loop of iteration \<open>iter\<close> that starts with \<open>n\<close> stops on the
    route.
  A sort with a random comparator leaves some rearrangement of the array, and
  \<^verbatim>\<open>Math.random()\<close> lies in \<open>[0, 1)\<close>.
\<close>

record RandomSource =
  shuffle :: "nat \<Rightarrow> TacoBellLocation list \<Rightarrow> TacoBellLocation list"
  random :: "nat \<Rightarrow> nat \<Rightarrow> nat \<Rightarrow> real"

definition wellFormedRandom :: "RandomSource \<Rightarrow> bool" where
  "wellFormedRandom rs \<longleftrightarrow>
     (\<forall>iter xs. mset (shuffle rs iter xs) = mset xs) \<and>
     (\<forall>iter n k. 0 \<le> random rs iter n k \<and> random rs iter n k < 1)"

text \<open>What the generator can throw.\<close>

datatype exn =
  NotEnoughNearby nat int
    \<comment> \<open>\<^verbatim>\<open>Not enough Taco Bells nearby! Found ${nearby.length}, need at least ${nStops - 1}\<close>\<close>
| SelectedUndefined
    \<comment> \<open>\<^verbatim>\<open>TypeError\<close>: \<^verbatim>\<open>candidates[randomIndex]\<close> is \<^verbatim>\<open>undefined\<close> and \<^verbatim>\<open>selected.tb\<close> is read\<close>

record Scored =
  tb :: TacoBellLocation
  distance :: real
  balanceScore :: real

definition targetAvgSegmentM :: "real \<Rightarrow> int \<Rightarrow> real" where
  "targetAvgSegmentM targetKm nStops =
     (let targetTotalHaversineKm = targetKm / 1.18 * 0.9;
          targetAvgSegmentKm = targetTotalHaversineKm / real_of_int nStops
      in targetAvgSegmentKm * 1000)"

text \<open>
  The candidates of one pass of the \<^verbatim>\<open>while\<close> loop: the stops of \<open>shuffled\<close> not yet on the
  route, with their distance from the last stop, after both (stable) sorts.
  \<open>currentAvgSegmentM\<close> is computed by the source and never read; it is left out.
\<close>

definition rankCandidates ::
  "TacoBellLocation list \<Rightarrow> TacoBellLocation list \<Rightarrow> real \<Rightarrow> Scored list" where
  "rankCandidates shuffled rt targetAvgSegM =
     (let lastStop = rt ! (length rt - 1);
          candidates =
            map (\<lambda>candidate.
                   let d = stopDistance lastStop candidate
                   in \<lparr>tb = candidate, distance = d, balanceScore = \<bar>d - targetAvgSegM\<bar>\<rparr>)
              (filter (\<lambda>candidate. \<not> (\<exists>t \<in> set rt. placeId t = placeId candidate)) shuffled);
          byDistance = sort_key distance candidates;
          combined =
            map (\<lambda>c. let normalizedBalance = balanceScore c / targetAvgSegM;
                          normalizedDistance = distance c / targetAvgSegM
                      in c\<lparr>balanceScore := 0.7 * normalizedDistance + 0.3 * normalizedBalance\<rparr>)
              byDistance
      in sort_key balanceScore combined)"

text \<open>
  The selection among a non-empty candidate list; \<open>None\<close> when \<^verbatim>\<open>candidates[randomIndex]\<close>
  is out of range.
\<close>

definition selectCandidate :: "RandomSource \<Rightarrow> nat \<Rightarrow> nat \<Rightarrow> Scored list \<Rightarrow> Scored option" where
  "selectCandidate rs iter n candidates =
     (if random rs iter n 0 < 0.7 \<or> length candidates = 1 then Some (candidates ! 0)
      else
        let topK = min 3 (length candidates);
            randomIndex = \<lfloor>random rs iter n 1 * real topK\<rfloor>
        in if 0 \<le> randomIndex \<and> randomIndex < int (length candidates)
           then Some (candidates ! nat randomIndex) else None)"

text \<open>The \<^verbatim>\<open>while (route.length < nStops)\<close> loop; \<open>None\<close> when the selection throws.\<close>

function extendRoute ::
  "RandomSource \<Rightarrow> nat \<Rightarrow> real \<Rightarrow> int \<Rightarrow> TacoBellLocation list \<Rightarrow> TacoBellLocation list
     \<Rightarrow> TacoBellLocation list option" where
  "extendRoute rs iter targetKm nStops shuffled rt =
     (if int (length rt) < nStops then
        (let candidates = rankCandidates shuffled rt (targetAvgSegmentM targetKm nStops)
         in if length candidates = 0 then Some rt
            else (case selectCandidate rs iter (length rt) candidates of
                    None \<Rightarrow> None
                  | Some selected \<Rightarrow>
                      extendRoute rs iter targetKm nStops shuffled (rt @ [tb selected])))
      else Some rt)"
  by pat_completeness auto
termination
  by (relation "measure (\<lambda>(rs, iter, targetKm, nStops, shuffled, rt). nat (nStops - int (length rt)))")
     auto

declare extendRoute.simps [simp del]

definition closeLoop :: "TacoBellLocation \<Rightarrow> TacoBellLocation list \<Rightarrow> TacoBellLocation list" where
  "closeLoop start rt =
     (if length rt > 1 \<and> placeId (rt ! (length rt - 1)) \<noteq> placeId start then rt @ [start]
      else rt)"

fun join :: "string \<Rightarrow> string list \<Rightarrow> string" where
  "join sep [] = []"
| "join sep [x] = x"
| "join sep (x # y # ys) = x @ sep @ join sep (y # ys)"

text \<open>\<^verbatim>\<open>route.slice(1, -1).map(tb => tb.placeId).sort().join(',')\<close>\<close>

definition routeSignature :: "TacoBellLocation list \<Rightarrow> string" where
  "routeSignature rt = join '','' (sort (map placeId (butlast (tl rt))))"

text \<open>
  The \<^verbatim>\<open>for (let iter = 0; iter < iterations; iter++)\<close> loop, over the iteration numbers
  still to run, with the accepted routes and the set of signatures seen so far.
\<close>

fun attempts ::
  "RandomSource \<Rightarrow> TacoBellLocation \<Rightarrow> TacoBellLocation list \<Rightarrow> real \<Rightarrow> int \<Rightarrow> nat list
     \<Rightarrow> RouteCandidate list \<Rightarrow> string set \<Rightarrow> exn + RouteCandidate list" where
  "attempts rs start nearby targetKm nStops [] routes seenRoutes = Inr routes"
| "attempts rs start nearby targetKm nStops (iter # iters) routes seenRoutes =
     (case extendRoute rs iter targetKm nStops (shuffle rs iter nearby) [start] of
        None \<Rightarrow> Inl SelectedUndefined
      | Some grown \<Rightarrow>
          let rt = closeLoop start grown;
              sig = routeSignature rt
          in if sig \<in> seenRoutes
             then attempts rs start nearby targetKm nStops iters routes seenRoutes
             else
               let seenRoutes' = insert sig seenRoutes;
                   haversineDist = routeDistance rt;
                   estimatedRoadKm = (haversineDist / 1000) * 1.18
               in if estimatedRoadKm > targetKm * 1.1
                  then attempts rs start nearby targetKm nStops iters routes seenRoutes'
                  else
                    let scored = scoreRoute rt targetKm 0.5 0.2 1.18
                    in attempts rs start nearby targetKm nStops iters
                         (routes @ [\<lparr>stops = rt, totalDistance = fst scored, score = snd scored\<rparr>])
                         seenRoutes')"

text \<open>The pool filter: within 24140 m of the start, and not the start itself.\<close>

definition nearbyOf :: "TacoBellLocation \<Rightarrow> TacoBellLocation list \<Rightarrow> TacoBellLocation list" where
  "nearbyOf start allTacoBells =
     filter (\<lambda>t. stopDistance start t \<le> 24140 \<and> placeId t \<noteq> placeId start) allTacoBells"

definition generateCandidateRoutes ::
  "RandomSource \<Rightarrow> TacoBellLocation \<Rightarrow> TacoBellLocation list \<Rightarrow> real \<Rightarrow> int \<Rightarrow> nat
     \<Rightarrow> exn + RouteCandidate list" where
  "generateCandidateRoutes rs start allTacoBells targetKm nStops iterations =
     (let nearby = nearbyOf start allTacoBells
      in if int (length nearby) < nStops - 1
         then Inl (NotEnoughNearby (length nearby) (nStops - 1))
         else (case attempts rs start nearby targetKm nStops [0..<iterations] [] {} of
                 Inl e \<Rightarrow> Inl e
               | Inr routes \<Rightarrow> Inr (sort_key score routes)))"

section \<open>External services\<close>

text \<open>
  The lookups and the directions oracle are network calls; what they answer is an input
  of the model. A call that throws answers \<open>Inl message\<close> (or \<open>None\<close> where the message is
  only logged).
  \<^item> \<open>searchNearbyPlaces lat lng radiusMeters keyword\<close>: the places around a centre.
  \<^item> \<open>getPlaceDetails k place_id\<close>: the details fetched for the \<open>k\<close>-th place of the lookup,
    with the address that \<^verbatim>\<open>extractAddressFromPlace\<close> (not part of the sources at hand)
    extracts from them; \<open>None\<close> when anything in the \<^verbatim>\<open>try\<close> block throws.
  \<^item> \<open>calculateRoute i origin destination waypoints\<close>: the answer to the request made for
    the \<open>i\<close>-th top candidate, as the list of routes, each the list of its legs'
    \<^verbatim>\<open>distance.value\<close>.
  \<^item> \<open>rng nStops\<close>: the random source of the generator run for \<open>nStops\<close> stops.
\<close>

record Place =
  place_id :: string
  place_name :: string
  types :: "string list option"
  geometry :: "(real \<times> real) option"

record PlaceDetails =
  details_place_id :: string
  details_name :: string
  details_lat :: real
  details_lng :: real
  extractedAddress :: string

record Services =
  searchNearbyPlaces :: "real \<Rightarrow> real \<Rightarrow> real \<Rightarrow> string \<Rightarrow> string + Place list"
  getPlaceDetails :: "nat \<Rightarrow> string \<Rightarrow> PlaceDetails option"
  calculateRoute ::
    "nat \<Rightarrow> TacoBellLocation \<Rightarrow> TacoBellLocation \<Rightarrow> TacoBellLocation list
       \<Rightarrow> string + real list list"
  rng :: "int \<Rightarrow> RandomSource"

section \<open>Candidate Pool Builder\<close>

text \<open>Strings are byte strings; \<^verbatim>\<open>toLowerCase\<close> and \<^verbatim>\<open>trim\<close> are modelled on ASCII.\<close>

definition toLowerCase :: "string \<Rightarrow> string" where
  "toLowerCase s =
     map (\<lambda>c. if CHR ''A'' \<le> c \<and> c \<le> CHR ''Z'' then char_of (of_char c + (32 :: nat)) else c) s"

definition str_includes :: "string \<Rightarrow> string \<Rightarrow> bool" where
  "str_includes s needle = sublist needle s"

definition isWhitespace :: "char \<Rightarrow> bool" where
  "isWhitespace c \<longleftrightarrow> c = CHR '' '' \<or> (9 :: nat) \<le> of_char c \<and> of_char c \<le> (13 :: nat)"

definition trim :: "string \<Rightarrow> string" where
  "trim s = rev (dropWhile isWhitespace (rev (dropWhile isWhitespace s)))"

definition isTacoBell :: "Place \<Rightarrow> bool" where
  "isTacoBell place \<longleftrightarrow>
     (case types place of
        None \<Rightarrow> False
      | Some ts \<Rightarrow> \<exists>t \<in> set ts. str_includes t ''restaurant'' \<or> str_includes t ''food'')
     \<and> (str_includes (toLowerCase (place_name place)) ''taco bell''
        \<or> str_includes (toLowerCase (place_name place)) ''tacobell'')"

text \<open>What the loop body pushes for one place: nothing, or one stop.\<close>

definition convertPlace :: "Services \<Rightarrow> nat \<Rightarrow> Place \<Rightarrow> TacoBellLocation list" where
  "convertPlace sv k place =
     (case geometry place of
        None \<Rightarrow> []
      | Some (plat, plng) \<Rightarrow>
          if \<not> isTacoBell place then []
          else (case getPlaceDetails sv k (place_id place) of
                  Some placeDetails \<Rightarrow>
                    let addr = extractedAddress placeDetails;
                        finalAddress =
                          (if addr \<noteq> [] \<and> trim addr \<noteq> [] \<and> addr \<noteq> details_name placeDetails
                           then trim addr else [])
                    in [\<lparr>lat = details_lat placeDetails, lng = details_lng placeDetails,
                         address = finalAddress, placeId = details_place_id placeDetails,
                         name = details_name placeDetails\<rparr>]
                | None \<Rightarrow>
                    [\<lparr>lat = plat, lng = plng, address = [], placeId = place_id place,
                      name = place_name place\<rparr>]))"

definition findTacoBells ::
  "Services \<Rightarrow> real \<Rightarrow> real \<Rightarrow> real \<Rightarrow> string + TacoBellLocation list" where
  "findTacoBells sv centerLat centerLng radiusMiles =
     (let radiusMeters = radiusMiles * 1609.34
      in case searchNearbyPlaces sv centerLat centerLng radiusMeters ''Taco Bell'' of
           Inl message \<Rightarrow> Inl message
         | Inr places \<Rightarrow>
             Inr (concat (map (\<lambda>(k, place). convertPlace sv k place) (enumerate 0 places))))"

section \<open>Route Verifier and Search Orchestrator\<close>

text \<open>Decimal rendering of the counts that the error message interpolates.\<close>

fun showNat :: "nat \<Rightarrow> string" where
  "showNat n =
     (if n < 10 then [char_of (48 + n)]
      else showNat (n div 10) @ [char_of (48 + n mod 10)])"

declare showNat.simps [simp del]

definition showInt :: "int \<Rightarrow> string" where
  "showInt i = (if i < 0 then ''-'' @ showNat (nat (- i)) else showNat (nat i))"

definition notEnoughMessage :: "nat \<Rightarrow> int \<Rightarrow> string" where
  "notEnoughMessage found needed =
     ''Not enough Taco Bells found. Found '' @ showNat found @ '', need at least '' @ showInt needed"

definition noCandidatesMessage :: string where
  "noCandidatesMessage = ''No candidate routes generated''"

text \<open>
  The variables of the verification loop. \<open>requests\<close> is not a variable of the source: it
  counts the invocations of \<^verbatim>\<open>calculateRoute\<close>, whether they return or throw.
\<close>

record VerifyState =
  bestRoute :: "RouteCandidate option"
  bestActualDistance :: jsnum
  bestRouteIndex :: int
  apiCallCount :: int
  requests :: nat

definition initialVerifyState :: VerifyState where
  "initialVerifyState =
     \<lparr>bestRoute = None, bestActualDistance = Infinity, bestRouteIndex = - 1,
      apiCallCount = 0, requests = 0\<rparr>"

text \<open>\<^verbatim>\<open>Math.abs(x / 1000 - targetKm)\<close> where \<open>x\<close> may be \<^verbatim>\<open>Infinity\<close>.\<close>

fun diffFromTarget :: "real \<Rightarrow> jsnum \<Rightarrow> jsnum" where
  "diffFromTarget targetKm (Finite x) = Finite \<bar>x / 1000 - targetKm\<bar>"
| "diffFromTarget targetKm Infinity = Infinity"

text \<open>
  What the loop does with a verified total distance: the block under
  \<^verbatim>\<open>// Check if route meets constraints\<close>.
\<close>

definition considerVerified ::
  "RouteFinderConfig \<Rightarrow> real \<Rightarrow> nat \<Rightarrow> RouteCandidate \<Rightarrow> real \<Rightarrow> VerifyState \<Rightarrow> VerifyState" where
  "considerVerified config targetKm i candidate totalDist st =
     (if totalDist \<ge> minDistanceMeters config \<and> totalDist \<le> maxDistanceMeters config then
        (if Finite totalDist < bestActualDistance st \<or> bestRoute st = None then
           (let currentDiff = diffFromTarget targetKm (Finite totalDist);
                bestDiff = (case bestRoute st of
                              Some b \<Rightarrow> diffFromTarget targetKm (bestActualDistance st)
                            | None \<Rightarrow> Infinity)
            in if currentDiff \<le> bestDiff \<or> bestRoute st = None
               then st\<lparr>bestRoute := Some candidate, bestActualDistance := Finite totalDist,
                       bestRouteIndex := int i\<rparr>
               else st)
         else st)
      else st)"

text \<open>The \<^verbatim>\<open>try\<close> block of the loop body for candidate \<open>i\<close>.\<close>

definition verifyCandidate ::
  "Services \<Rightarrow> RouteFinderConfig \<Rightarrow> real \<Rightarrow> nat \<Rightarrow> RouteCandidate \<Rightarrow> VerifyState \<Rightarrow> VerifyState" where
  "verifyCandidate sv config targetKm i candidate st =
     (let waypoints = butlast (tl (stops candidate));
          origin = stops candidate ! 0;
          destination = stops candidate ! (length (stops candidate) - 1)
      in case calculateRoute sv i origin destination waypoints of
           Inl message \<Rightarrow> st\<lparr>requests := requests st + 1\<rparr>
         | Inr directions \<Rightarrow>
             let st' = st\<lparr>apiCallCount := apiCallCount st + 1, requests := requests st + 1\<rparr>
             in (case directions of
                   [] \<Rightarrow> st'
                 | legs # others \<Rightarrow>
                     considerVerified config targetKm i candidate
                       (foldl (\<lambda>sum d. sum + d) 0 legs) st'))"

text \<open>The loop \<^verbatim>\<open>for (let i = 0; i < topCandidates.length; i++)\<close>, from index \<open>i\<close> on.\<close>

fun verifyLoop ::
  "Services \<Rightarrow> RouteFinderConfig \<Rightarrow> real \<Rightarrow> real \<Rightarrow> nat \<Rightarrow> RouteCandidate list \<Rightarrow> VerifyState
     \<Rightarrow> VerifyState" where
  "verifyLoop sv config targetKm maxCalls i [] st = st"
| "verifyLoop sv config targetKm maxCalls i (candidate # rest) st =
     (if real_of_int (apiCallCount st) \<ge> maxCalls then st
      else verifyLoop sv config targetKm maxCalls (i + 1) rest
             (verifyCandidate sv config targetKm i candidate st))"

text \<open>\<^verbatim>\<open>config.maxApiCalls || 50\<close>\<close>

definition effectiveMaxApiCalls :: "RouteFinderConfig \<Rightarrow> real" where
  "effectiveMaxApiCalls config =
     (case maxApiCalls config of
        Some m \<Rightarrow> if m \<noteq> 0 then m else 50
      | None \<Rightarrow> 50)"

text \<open>
  Step 2 of \<^verbatim>\<open>findOptimalRoute\<close>: one generator run per stop count, in ascending order, a run
  that throws contributing nothing; the results are pushed onto one array.
\<close>

definition candidateRoutesOf ::
  "Services \<Rightarrow> TacoBellLocation \<Rightarrow> TacoBellLocation list \<Rightarrow> real \<Rightarrow> RouteFinderConfig
     \<Rightarrow> RouteCandidate list" where
  "candidateRoutesOf sv start allTacoBells targetKm config =
     concat (map (\<lambda>nStops.
                    case generateCandidateRoutes (rng sv nStops) start allTacoBells targetKm nStops 200 of
                      Inl e \<Rightarrow> []
                    | Inr routes \<Rightarrow> routes)
              [minTacoBells config .. maxTacoBells config])"

text \<open>
  The outcome of a search: the returned result, the number of requests sent to the
  directions oracle, and the last \<open>apiCallsUsed\<close> reported to the progress callback.
  Progress notifications and logging have no effect on the control flow and are left out.
\<close>

record Outcome =
  result :: RouteFinderResult
  oracleRequests :: nat
  apiCallsUsed :: int

definition findOptimalRoute :: "Services \<Rightarrow> TacoBellLocation \<Rightarrow> RouteFinderConfig \<Rightarrow> Outcome" where
  "findOptimalRoute sv startTacoBell config =
     (let targetKm = 50;
          maxCalls = effectiveMaxApiCalls config
      in case findTacoBells sv (lat startTacoBell) (lng startTacoBell) (searchRadiusMiles config) of
           Inl message \<Rightarrow> \<lparr>result = Failure message, oracleRequests = 0, apiCallsUsed = 0\<rparr>
         | Inr found \<Rightarrow>
             if int (length found) < minTacoBells config
             then \<lparr>result = Failure (notEnoughMessage (length found) (minTacoBells config)),
                   oracleRequests = 0, apiCallsUsed = 0\<rparr>
             else
               let allTacoBells =
                     (if \<exists>t \<in> set found. placeId t = placeId startTacoBell then found
                      else found @ [startTacoBell]);
                   candidateRoutes = candidateRoutesOf sv startTacoBell allTacoBells targetKm config;
                   topCandidates = take 5 candidateRoutes
               in if length topCandidates = 0
                  then \<lparr>result = Failure noCandidatesMessage, oracleRequests = 0, apiCallsUsed = 0\<rparr>
                  else
                    let st = verifyLoop sv config targetKm maxCalls 0 topCandidates initialVerifyState
                    in (case bestRoute st of
                          Some best \<Rightarrow>
                            \<lparr>result = Success (butlast (stops best)) (bestActualDistance st),
                             oracleRequests = requests st, apiCallsUsed = apiCallCount st\<rparr>
                        | None \<Rightarrow>
                            let bestEstimate = topCandidates ! 0
                            in \<lparr>result = Success (butlast (stops bestEstimate))
                                           (Finite (totalDistance bestEstimate)),
                                oracleRequests = requests st, apiCallsUsed = apiCallCount st\<rparr>))"

section \<open>The coefficient of variation\<close>

text \<open>
  The statistics the description of the Route Scorer names: the mean of a list of
  numbers, its (population) standard deviation, and their quotient, the coefficient of
  variation.
\<close>

definition meanOf :: "real list \<Rightarrow> real" where
  "meanOf xs = sum_list xs / real (length xs)"

definition standardDeviation :: "real list \<Rightarrow> real" where
  "standardDeviation xs = sqrt (sum_list (map (\<lambda>x. (x - meanOf xs)\<^sup>2) xs) / real (length xs))"

definition coefficientOfVariation :: "real list \<Rightarrow> real" where
  "coefficientOfVariation xs = standardDeviation xs / meanOf xs"

section \<open>Example inputs\<close>

text \<open>
  Stops on the meridian 118 W. \<open>stopA\<close> is a second listing at the coordinates of the
  start \<open>stopS\<close>; \<open>stopB\<close>, \<open>stopC\<close> lie 0.1 and 0.2 degrees (about 11.1 and 22.2 km) north
  of it, \<open>stopX\<close> and \<open>stopY\<close> 0.16 and 0.162 degrees (about 17.8 and 18.0 km).
\<close>

definition stopS :: TacoBellLocation where
  "stopS = \<lparr>lat = 34, lng = - 118, address = ''100 Main St'', placeId = ''S'',
            name = ''Taco Bell''\<rparr>"

definition stopA :: TacoBellLocation where
  "stopA = \<lparr>lat = 34, lng = - 118, address = ''100 Main St'', placeId = ''A'',
            name = ''Taco Bell Cantina''\<rparr>"

definition stopB :: TacoBellLocation where
  "stopB = \<lparr>lat = 34.1, lng = - 118, address = ''200 North Ave'', placeId = ''B'',
            name = ''Taco Bell''\<rparr>"

definition stopC :: TacoBellLocation where
  "stopC = \<lparr>lat = 34.2, lng = - 118, address = ''300 North Ave'', placeId = ''C'',
            name = ''Taco Bell''\<rparr>"

definition stopX :: TacoBellLocation where
  "stopX = \<lparr>lat = 34.16, lng = - 118, address = ''16 Canyon Rd'', placeId = ''X'',
            name = ''Taco Bell''\<rparr>"

definition stopY :: TacoBellLocation where
  "stopY = \<lparr>lat = 34.162, lng = - 118, address = ''18 Canyon Rd'', placeId = ''Y'',
            name = ''Taco Bell''\<rparr>"

text \<open>
  A random source that leaves the array in place and always draws 0, so that the best
  ranked candidate is selected in every pass.
\<close>

definition firstChoice :: RandomSource where
  "firstChoice = \<lparr>shuffle = (\<lambda>iter xs. xs), random = (\<lambda>iter n k. 0)\<rparr>"

text \<open>The candidates that the generator builds from these stops.\<close>

definition routeTwo :: RouteCandidate where
  "routeTwo = \<lparr>stops = [stopS, stopA, stopS], totalDistance = 0, score = Infinity\<rparr>"

definition routeThree :: RouteCandidate where
  "routeThree =
     \<lparr>stops = [stopS, stopA, stopB, stopS],
      totalDistance = fst (scoreRoute [stopS, stopA, stopB, stopS] 50 0.5 0.2 1.18),
      score = snd (scoreRoute [stopS, stopA, stopB, stopS] 50 0.5 0.2 1.18)\<rparr>"

definition routeX :: RouteCandidate where
  "routeX =
     \<lparr>stops = [stopS, stopX, stopS],
      totalDistance = fst (scoreRoute [stopS, stopX, stopS] 50 0.5 0.2 1.18),
      score = snd (scoreRoute [stopS, stopX, stopS] 50 0.5 0.2 1.18)\<rparr>"

definition routeXY :: RouteCandidate where
  "routeXY =
     \<lparr>stops = [stopS, stopX, stopY, stopS],
      totalDistance = fst (scoreRoute [stopS, stopX, stopY, stopS] 50 0.5 0.2 1.18),
      score = snd (scoreRoute [stopS, stopX, stopY, stopS] 50 0.5 0.2 1.18)\<rparr>"

text \<open>The lookup results for these stops, and the details service.\<close>

definition placeOf :: "TacoBellLocation \<Rightarrow> Place" where
  "placeOf t =
     \<lparr>place_id = placeId t, place_name = name t, types = Some [''meal_takeaway'', ''restaurant''],
      geometry = Some (lat t, lng t)\<rparr>"

definition detailsOf :: "string \<Rightarrow> PlaceDetails option" where
  "detailsOf pid =
     map_option
       (\<lambda>t. \<lparr>details_place_id = placeId t, details_name = name t, details_lat = lat t,
              details_lng = lng t, extractedAddress = address t\<rparr>)
       (find (\<lambda>t. placeId t = pid) [stopA, stopB, stopX, stopY])"

definition lookupServices ::
  "Place list
     \<Rightarrow> (nat \<Rightarrow> TacoBellLocation \<Rightarrow> TacoBellLocation \<Rightarrow> TacoBellLocation list
          \<Rightarrow> string + real list list)
     \<Rightarrow> Services" where
  "lookupServices places directions =
     \<lparr>searchNearbyPlaces = (\<lambda>centerLat centerLng radiusMeters keyword. Inr places),
      getPlaceDetails = (\<lambda>k pid. detailsOf pid),
      calculateRoute = directions,
      rng = (\<lambda>nStops. firstChoice)\<rparr>"

text \<open>A directions oracle whose every request fails.\<close>

definition oracleDown :: Services where
  "oracleDown =
     lookupServices [placeOf stopA, placeOf stopB]
       (\<lambda>i origin destination waypoints. Inl ''Directions API error'')"

text \<open>A lookup that lists the same place twice.\<close>

definition duplicatedLookup :: Services where
  "duplicatedLookup =
     lookupServices [placeOf stopA, placeOf stopA]
       (\<lambda>i origin destination waypoints. Inl ''Directions API error'')"

text \<open>
  A directions oracle that answers 48500 m for the first request and 50100 m for the
  later ones.
\<close>

definition roadAnswers :: Services where
  "roadAnswers =
     lookupServices [placeOf stopX, placeOf stopY]
       (\<lambda>i origin destination waypoints.
          if i = 0 then Inr [[24250, 24250]] else Inr [[24300, 300, 25500]])"

definition twoToThree :: RouteFinderConfig where
  "twoToThree =
     \<lparr>minDistanceMeters = 50000, maxDistanceMeters = 55000, minTacoBells = 2, maxTacoBells = 3,
      searchRadiusMiles = 15, maxApiCalls = Some 1\<rparr>"

text \<open>The band of 30 to 34 miles.\<close>

definition milesBand :: RouteFinderConfig where
  "milesBand =
     \<lparr>minDistanceMeters = 48280, maxDistanceMeters = 54717, minTacoBells = 2, maxTacoBells = 3,
      searchRadiusMiles = 15, maxApiCalls = None\<rparr>"

text \<open>The same band with a ceiling of one oracle call.\<close>

definition milesBandOneCall :: RouteFinderConfig where
  "milesBandOneCall = milesBand\<lparr>maxApiCalls := Some 1\<rparr>"

text \<open>
  A lookup whose request fails; the message is the one the lookup service reports,
  which \<^verbatim>\<open>searchNearbyPlaces\<close> throws on as it is.
\<close>

definition lookupFails :: Services where
  "lookupFails =
     \<lparr>searchNearbyPlaces =
        (\<lambda>centerLat centerLng radiusMeters keyword.
           Inl ''Not enough Taco Bells found. Found 2, need at least 8''),
      getPlaceDetails = (\<lambda>k pid. None),
      calculateRoute = (\<lambda>i origin destination waypoints. Inl ''Directions API error''),
      rng = (\<lambda>nStops. firstChoice)\<rparr>"

text \<open>\<^verbatim>\<open>DEFAULT_CONFIG\<close>\<close>

definition defaultConfig :: RouteFinderConfig where
  "defaultConfig =
     \<lparr>minDistanceMeters = 50000, maxDistanceMeters = 55000, minTacoBells = 8, maxTacoBells = 10,
      searchRadiusMiles = 15, maxApiCalls = None\<rparr>"

section \<open>Properties of the geodesic distance\<close>

lemma prod_abs_le: "\<bar>a * b\<bar> \<le> (a\<^sup>2 + b\<^sup>2) / 2" for a b :: real
proof -
  have "0 \<le> (\<bar>a\<bar> - \<bar>b\<bar>)\<^sup>2" by simp
  then have "2 * (\<bar>a\<bar> * \<bar>b\<bar>) \<le> \<bar>a\<bar>\<^sup>2 + \<bar>b\<bar>\<^sup>2"
    by (simp add: power2_diff)
  then show ?thesis by (simp add: abs_mult)
qed

lemma sin_half_sq: "(sin (x / 2))\<^sup>2 = (1 - cos x) / 2" for x :: real
  using cos_double_sin [of "x / 2"] by simp

lemma hav_central_alt:
  "hav_central lat1 lng1 lat2 lng2 =
     (1 - (sin (lat1 * pi / 180) * sin (lat2 * pi / 180) +
           cos (lat1 * pi / 180) * cos (lat2 * pi / 180) * cos ((lng2 - lng1) * pi / 180))) / 2"
proof -
  define p1 where "p1 = lat1 * pi / 180"
  define p2 where "p2 = lat2 * pi / 180"
  define dl where "dl = (lng2 - lng1) * pi / 180"
  have a: "(lat2 - lat1) * pi / 360 = (p2 - p1) / 2"
    by (simp add: p1_def p2_def field_simps)
  have b: "(lng2 - lng1) * pi / 360 = dl / 2" by (simp add: dl_def)
  have "hav_central lat1 lng1 lat2 lng2 =
      (1 - cos (p2 - p1)) / 2 + cos p1 * cos p2 * ((1 - cos dl) / 2)"
    unfolding hav_central_def a b sin_half_sq p1_def [symmetric] p2_def [symmetric] ..
  also have "\<dots> = (1 - (sin p1 * sin p2 + cos p1 * cos p2 * cos dl)) / 2"
    unfolding cos_diff by (simp add: field_simps)
  finally show ?thesis unfolding p1_def p2_def dl_def .
qed

lemma hav_central_range: "0 \<le> hav_central lat1 lng1 lat2 lng2 \<and> hav_central lat1 lng1 lat2 lng2 \<le> 1"
proof -
  define s1 where "s1 = sin (lat1 * pi / 180)"
  define s2 where "s2 = sin (lat2 * pi / 180)"
  define c1 where "c1 = cos (lat1 * pi / 180)"
  define c2 where "c2 = cos (lat2 * pi / 180)"
  define k where "k = cos ((lng2 - lng1) * pi / 180)"
  have k: "\<bar>k\<bar> \<le> 1" by (simp add: k_def)
  have u1: "s1\<^sup>2 + c1\<^sup>2 = 1" by (simp add: s1_def c1_def)
  have u2: "s2\<^sup>2 + c2\<^sup>2 = 1" by (simp add: s2_def c2_def)
  have "\<bar>c1 * c2 * k\<bar> = \<bar>c1 * c2\<bar> * \<bar>k\<bar>" by (simp add: abs_mult)
  also have "\<dots> \<le> \<bar>c1 * c2\<bar> * 1" by (rule mult_left_mono) (use k in simp_all)
  finally have ck: "\<bar>c1 * c2 * k\<bar> \<le> \<bar>c1 * c2\<bar>" by simp
  have "\<bar>s1 * s2 + c1 * c2 * k\<bar> \<le> \<bar>s1 * s2\<bar> + \<bar>c1 * c2\<bar>"
    using ck abs_triangle_ineq [of "s1 * s2" "c1 * c2 * k"] by linarith
  also have "\<dots> \<le> (s1\<^sup>2 + s2\<^sup>2) / 2 + (c1\<^sup>2 + c2\<^sup>2) / 2"
    using prod_abs_le [of s1 s2] prod_abs_le [of c1 c2] by linarith
  also have "\<dots> = 1" using u1 u2 by (simp add: field_simps)
  finally have "\<bar>s1 * s2 + c1 * c2 * k\<bar> \<le> 1" .
  then have "0 \<le> (1 - (s1 * s2 + c1 * c2 * k)) / 2 \<and> (1 - (s1 * s2 + c1 * c2 * k)) / 2 \<le> 1"
    by (simp add: abs_le_iff)
  then show ?thesis
    unfolding hav_central_alt s1_def s2_def c1_def c2_def k_def .
qed

lemma atan2_sqrt_arcsin:
  assumes "0 \<le> a" "a \<le> 1"
  shows "Math_atan2 (sqrt a) (sqrt (1 - a)) = arcsin (sqrt a)"
proof (cases "a < 1")
  case True
  then have pos: "0 < sqrt (1 - a)" by simp
  have lt: "sqrt a < 1" using True assms by (simp add: real_sqrt_lt_1_iff)
  have ge: "- 1 < sqrt a" using assms by (smt (verit) real_sqrt_ge_zero)
  have "arcsin (sqrt a) = arctan (sqrt a / sqrt (1 - (sqrt a)\<^sup>2))"
    by (rule arcsin_arctan) (use lt ge in auto)
  also have "(sqrt a)\<^sup>2 = a" using assms by simp
  finally show ?thesis using pos by (simp add: Math_atan2_def)
next
  case False
  then have "a = 1" using assms by simp
  then show ?thesis by (simp add: Math_atan2_def)
qed

lemma haversineDistance_computed:
  "haversineDistance e lat1 lng1 lat2 lng2 =
     (let a = hav_central lat1 lng1 lat2 lng2 + e
      in if a < 0 \<or> 1 < a then NaN
         else Number (6371000 * (2 * Math_atan2 (sqrt a) (sqrt (1 - a)))))"
proof -
  have a: "sin ((lat2 - lat1) * pi / 180 / 2) * sin ((lat2 - lat1) * pi / 180 / 2) +
        cos (lat1 * pi / 180) * cos (lat2 * pi / 180) *
        sin ((lng2 - lng1) * pi / 180 / 2) * sin ((lng2 - lng1) * pi / 180 / 2)
        = hav_central lat1 lng1 lat2 lng2"
    by (simp add: hav_central_def power2_eq_square algebra_simps)
  show ?thesis
    unfolding haversineDistance_def Let_def a
    by (simp add: Math_sqrt_def)
qed

lemma haversineDistance_exact:
  "haversineDistance 0 lat1 lng1 lat2 lng2 =
     Number (6371000 * (2 * arcsin (sqrt (hav_central lat1 lng1 lat2 lng2))))"
proof -
  have r: "0 \<le> hav_central lat1 lng1 lat2 lng2" "hav_central lat1 lng1 lat2 lng2 \<le> 1"
    using hav_central_range by simp_all
  show ?thesis
    using r atan2_sqrt_arcsin [OF r] by (simp add: haversineDistance_computed Let_def)
qed

lemma haversine_arcsin:
  "haversineExact lat1 lng1 lat2 lng2 =
     6371000 * (2 * arcsin (sqrt (hav_central lat1 lng1 lat2 lng2)))"
  by (simp add: haversineExact_def haversineDistance_exact)

lemma hav_central_sym: "hav_central lat2 lng2 lat1 lng1 = hav_central lat1 lng1 lat2 lng2"
proof -
  have "(lng1 - lng2) * pi / 180 = - ((lng2 - lng1) * pi / 180)" by (simp add: field_simps)
  then have "cos ((lng1 - lng2) * pi / 180) = cos ((lng2 - lng1) * pi / 180)"
    by (simp only: cos_minus)
  then show ?thesis unfolding hav_central_alt by (simp add: algebra_simps)
qed

lemma hav_central_same: "hav_central x y x y = 0"
  by (simp add: hav_central_def)

text \<open>
  Under exact arithmetic the distance is symmetric, zero between a coordinate and
  itself, and the haversine formula on a sphere of radius 6,371,000 m.
\<close>

lemma haversineExact_symmetric_zero:
  "haversineExact lat1 lng1 lat2 lng2 = haversineExact lat2 lng2 lat1 lng1
   \<and> haversineExact lat1 lng1 lat1 lng1 = 0
   \<and> haversineDistance 0 lat1 lng1 lat2 lng2 =
       Number (6371000 * (2 * arcsin (sqrt (hav_central lat1 lng1 lat2 lng2))))"
  by (simp add: haversine_arcsin hav_central_sym hav_central_same haversineDistance_exact)

lemma hav_central_antipodal:
  "hav_central (- 12) (- 180) 12 0 = 1" "hav_central 12 0 (- 12) (- 180) = 1"
proof -
  have "(sin (pi / 15))\<^sup>2 + cos (pi / 15) * cos (pi / 15) = 1"
    using sin_cos_squared_add [of "pi / 15"] by (simp add: power2_eq_square)
  then show "hav_central (- 12) (- 180) 12 0 = 1"
    by (simp add: hav_central_def)
  then show "hav_central 12 0 (- 12) (- 180) = 1"
    by (simp only: hav_central_sym)
qed

section \<open>Properties of the verification loop\<close>

lemma considerVerified_counts:
  "apiCallCount (considerVerified config targetKm i c d st) = apiCallCount st"
  "requests (considerVerified config targetKm i c d st) = requests st"
  by (simp_all add: considerVerified_def Let_def)

lemma verifyCandidate_requests:
  "requests (verifyCandidate sv config targetKm i c st) = requests st + 1"
  by (simp add: verifyCandidate_def Let_def considerVerified_counts split: sum.splits list.splits)

lemma verifyLoop_requests:
  "requests (verifyLoop sv config targetKm maxCalls i cs st) \<le> requests st + length cs"
proof (induction cs arbitrary: i st)
  case Nil
  then show ?case by simp
next
  case (Cons c cs)
  show ?case
    using Cons.IH [of "i + 1" "verifyCandidate sv config targetKm i c st"]
    by (simp add: verifyCandidate_requests)
qed

lemma oracleRequests_at_most_five:
  "oracleRequests (findOptimalRoute sv startTacoBell config) \<le> 5"
proof -
  have req: "requests (verifyLoop sv config 50 m 0 (take 5 cs) initialVerifyState) \<le> 5" for m cs
    using verifyLoop_requests [of sv config 50 m 0 "take 5 cs" initialVerifyState]
    by (simp add: initialVerifyState_def)
  show ?thesis
    unfolding findOptimalRoute_def Let_def
    using req by (auto split: sum.splits option.splits)
qed

section \<open>Properties of the generator\<close>

lemma tb_rankCandidates:
  "tb ` set (rankCandidates shuffled rt t) =
     {c \<in> set shuffled. placeId c \<notin> placeId ` set rt}"
  unfolding rankCandidates_def Let_def
  by (auto simp: image_iff; metis)

lemma selectCandidate_mem:
  assumes "selectCandidate rs iter n cs = Some sel" "cs \<noteq> []"
  shows "sel \<in> set cs"
proof (cases "random rs iter n 0 < 0.7 \<or> length cs = 1")
  case True
  then have "sel = cs ! 0" using assms by (simp add: selectCandidate_def)
  then show ?thesis using assms by simp
next
  case False
  define k where "k = \<lfloor>random rs iter n 1 * real (min 3 (length cs))\<rfloor>"
  have "k < int (length cs) \<and> sel = cs ! nat k"
    using assms False unfolding k_def
    by (auto simp: selectCandidate_def Let_def split: if_splits)
  moreover have "0 < length cs" using assms by simp
  ultimately have "nat k < length cs" "sel = cs ! nat k" by linarith+
  then show ?thesis by simp
qed

lemma extendRoute_grows:
  assumes "extendRoute rs iter targetKm nStops shuffled rt = Some r"
    and "distinct (map placeId rt)"
  shows "\<exists>picks. r = rt @ picks \<and> set picks \<subseteq> set shuffled \<and> distinct (map placeId r)
           \<and> (int (length r) < nStops \<longrightarrow> placeId ` set shuffled \<subseteq> placeId ` set r)
           \<and> (int (length rt) \<le> nStops \<longrightarrow> int (length r) \<le> nStops)"
  using assms
proof (induction rs iter targetKm nStops shuffled rt arbitrary: r rule: extendRoute.induct)
  case (1 rs iter targetKm nStops shuffled rt)
  let ?cs = "rankCandidates shuffled rt (targetAvgSegmentM targetKm nStops)"
  show ?case
  proof (cases "int (length rt) < nStops")
    case False
    then have "r = rt" using "1.prems" by (simp add: extendRoute.simps [of _ _ _ _ _ rt])
    then show ?thesis using False "1.prems" by auto
  next
    case True
    show ?thesis
    proof (cases "?cs = []")
      case True
      then have r: "r = rt" using "1.prems" \<open>int (length rt) < nStops\<close>
        by (simp add: extendRoute.simps [of _ _ _ _ _ rt])
      have "tb ` set ?cs = {}" using True by simp
      then have "placeId ` set shuffled \<subseteq> placeId ` set rt"
        unfolding tb_rankCandidates by auto
      then show ?thesis using r "1.prems" by auto
    next
      case False
      then obtain sel where sel: "selectCandidate rs iter (length rt) ?cs = Some sel"
        and rec: "extendRoute rs iter targetKm nStops shuffled (rt @ [tb sel]) = Some r"
        using "1.prems" \<open>int (length rt) < nStops\<close>
        by (simp add: extendRoute.simps [of _ _ _ _ _ rt] Let_def split: option.splits)
      have "sel \<in> set ?cs" using selectCandidate_mem [OF sel False] .
      then have "tb sel \<in> tb ` set ?cs" by simp
      then have mem: "tb sel \<in> set shuffled" and fresh: "placeId (tb sel) \<notin> placeId ` set rt"
        unfolding tb_rankCandidates by auto
      have d: "distinct (map placeId (rt @ [tb sel]))" using "1.prems" fresh by simp
      have len: "length ?cs \<noteq> 0" using False by simp
      obtain picks where p: "r = (rt @ [tb sel]) @ picks" "set picks \<subseteq> set shuffled"
        "distinct (map placeId r)"
        "int (length r) < nStops \<longrightarrow> placeId ` set shuffled \<subseteq> placeId ` set r"
        "int (length (rt @ [tb sel])) \<le> nStops \<longrightarrow> int (length r) \<le> nStops"
        using "1.IH" [OF \<open>int (length rt) < nStops\<close> refl len sel rec d] by blast
      have "r = rt @ (tb sel # picks)" using p(1) by simp
      moreover have "set (tb sel # picks) \<subseteq> set shuffled" using p(2) mem by simp
      moreover have "int (length r) \<le> nStops" using p(5) \<open>int (length rt) < nStops\<close> by simp
      ultimately show ?thesis using p(3,4) by blast
    qed
  qed
qed


lemma attempts_routes:
  assumes "attempts rs start nearby targetKm nStops iters routes seen = Inr out"
    and "\<forall>c \<in> set routes. Q (stops c)"
    and "\<And>iter grown.
           extendRoute rs iter targetKm nStops (shuffle rs iter nearby) [start] = Some grown
           \<Longrightarrow> Q (closeLoop start grown)"
  shows "\<forall>c \<in> set out. Q (stops c)"
  using assms(1,2)
proof (induction iters arbitrary: routes seen)
  case Nil
  then show ?case by simp
next
  case (Cons iter iters)
  from Cons.prems(1) obtain grown where
    g: "extendRoute rs iter targetKm nStops (shuffle rs iter nearby) [start] = Some grown"
    by (cases "extendRoute rs iter targetKm nStops (shuffle rs iter nearby) [start]") simp_all
  define rt where "rt = closeLoop start grown"
  have q: "Q rt" unfolding rt_def using assms(3) [OF g] .
  define cand where
    "cand = \<lparr>stops = rt, totalDistance = fst (scoreRoute rt targetKm 0.5 0.2 1.18),
             score = snd (scoreRoute rt targetKm 0.5 0.2 1.18)\<rparr>"
  have qc: "\<forall>c \<in> set (routes @ [cand]). Q (stops c)"
    using Cons.prems(2) q by (simp add: cand_def)
  from Cons.prems(1) g
  consider
    "attempts rs start nearby targetKm nStops iters routes seen = Inr out"
    | "attempts rs start nearby targetKm nStops iters routes
         (insert (routeSignature rt) seen) = Inr out"
    | "attempts rs start nearby targetKm nStops iters (routes @ [cand])
         (insert (routeSignature rt) seen) = Inr out"
    unfolding rt_def cand_def
    by (simp add: Let_def split: if_splits)
  then show ?case
  proof cases
    case 1
    then show ?thesis using Cons.IH Cons.prems(2) by blast
  next
    case 2
    then show ?thesis using Cons.IH Cons.prems(2) by blast
  next
    case 3
    then show ?thesis using Cons.IH qc by blast
  qed
qed

lemma generate_routes:
  assumes "generateCandidateRoutes rs start allTacoBells targetKm nStops iterations = Inr out"
    and "\<And>iter grown.
           int (length (nearbyOf start allTacoBells)) \<ge> nStops - 1 \<Longrightarrow>
           extendRoute rs iter targetKm nStops (shuffle rs iter (nearbyOf start allTacoBells)) [start]
             = Some grown
           \<Longrightarrow> Q (closeLoop start grown)"
  shows "\<forall>c \<in> set out. Q (stops c)"
proof -
  let ?nearby = "nearbyOf start allTacoBells"
  have enough: "int (length ?nearby) \<ge> nStops - 1"
  proof (rule ccontr)
    assume "\<not> ?thesis"
    then show False using assms(1) by (simp add: generateCandidateRoutes_def Let_def)
  qed
  then have "(case attempts rs start ?nearby targetKm nStops [0..<iterations] [] {} of
                 Inl e \<Rightarrow> Inl e
               | Inr routes \<Rightarrow> Inr (sort_key score routes)) = Inr out"
    using assms(1) by (simp add: generateCandidateRoutes_def Let_def)
  then obtain routes where
    a: "attempts rs start ?nearby targetKm nStops [0..<iterations] [] {} = Inr routes"
    and o: "out = sort_key score routes"
    by (cases "attempts rs start ?nearby targetKm nStops [0..<iterations] [] {}") auto
  have "\<forall>c \<in> set routes. Q (stops c)"
    by (rule attempts_routes [OF a]) (simp, rule assms(2) [OF enough])
  then show ?thesis using o by simp
qed

lemma shuffle_set:
  "wellFormedRandom rs \<Longrightarrow> set (shuffle rs iter xs) = set xs"
  by (metis wellFormedRandom_def mset_eq_setD)

lemma closeLoop_set: "set (closeLoop start rt) \<subseteq> insert start (set rt)"
  by (auto simp: closeLoop_def)

lemma nearbyOf_not_start: "x \<in> set (nearbyOf start allTacoBells) \<Longrightarrow> placeId x \<noteq> placeId start"
  by (simp add: nearbyOf_def)

lemma attempt_closed_loop:
  assumes wf: "wellFormedRandom rs"
    and n2: "2 \<le> nStops"
    and enough: "int (length (nearbyOf start allTacoBells)) \<ge> nStops - 1"
    and g: "extendRoute rs iter targetKm nStops (shuffle rs iter (nearbyOf start allTacoBells)) [start]
              = Some grown"
  shows "\<exists>interior. closeLoop start grown = start # interior @ [start]
           \<and> distinct (map placeId (start # interior))
           \<and> interior \<noteq> []
           \<and> int (length interior) \<le> nStops - 1
           \<and> (distinct (map placeId allTacoBells) \<longrightarrow> int (length interior) = nStops - 1)"
proof -
  let ?nearby = "nearbyOf start allTacoBells"
  let ?shuffled = "shuffle rs iter ?nearby"
  have ms: "mset ?shuffled = mset ?nearby" using wf by (simp add: wellFormedRandom_def)
  have st: "set ?shuffled = set ?nearby" using ms by (rule mset_eq_setD)
  have len: "length ?shuffled = length ?nearby" using ms by (rule mset_eq_length)
  obtain picks where p: "grown = [start] @ picks" "set picks \<subseteq> set ?shuffled"
    "distinct (map placeId grown)"
    "int (length grown) < nStops \<longrightarrow> placeId ` set ?shuffled \<subseteq> placeId ` set grown"
    "int (length [start]) \<le> nStops \<longrightarrow> int (length grown) \<le> nStops"
    using extendRoute_grows [OF g] by auto
  have nostart: "placeId start \<notin> placeId ` set ?shuffled"
  proof
    assume "placeId start \<in> placeId ` set ?shuffled"
    then obtain x where "x \<in> set ?nearby" "placeId x = placeId start"
      unfolding st by (metis imageE)
    then show False using nearbyOf_not_start by blast
  qed
  have ne: "?nearby \<noteq> []" using enough n2 by auto
  have picks_ne: "picks \<noteq> []"
  proof
    assume "picks = []"
    then have "grown = [start]" using p(1) by simp
    then have "placeId ` set ?shuffled \<subseteq> {placeId start}" using p(4) n2 by simp
    moreover obtain x where "x \<in> set ?shuffled" using ne st by (cases ?nearby) auto
    ultimately have "placeId x = placeId start" "placeId x \<in> placeId ` set ?shuffled"
      by blast+
    then show False using nostart by simp
  qed
  have lastp: "grown ! (length grown - 1) = last picks"
    using p(1) picks_ne by (simp add: last_conv_nth nth_append)
  have "last picks \<in> set picks" using picks_ne by simp
  then have "placeId (last picks) \<noteq> placeId start" using p(2) nostart
    by (metis image_eqI subsetD)
  then have closed: "closeLoop start grown = start # picks @ [start]"
    using p(1) picks_ne lastp by (simp add: closeLoop_def)
  have upper: "int (length picks) \<le> nStops - 1" using p(1,5) n2 by simp
  have exact: "int (length picks) = nStops - 1" if d: "distinct (map placeId allTacoBells)"
  proof (rule ccontr)
    assume "int (length picks) \<noteq> nStops - 1"
    then have short: "int (length grown) < nStops" using upper p(1) by simp
    have "distinct (map placeId ?nearby)"
      unfolding nearbyOf_def using d by (rule distinct_map_filter)
    moreover have "mset (map placeId ?shuffled) = mset (map placeId ?nearby)"
      by (simp only: mset_map ms)
    ultimately have "distinct (map placeId ?shuffled)"
      by (metis mset_eq_imp_distinct_iff)
    then have c1: "card (placeId ` set ?shuffled) = length ?shuffled"
      by (metis distinct_card length_map set_map)
    have "placeId ` set ?shuffled \<subseteq> placeId ` set grown" using p(4) short by simp
    then have "placeId ` set ?shuffled \<subseteq> insert (placeId start) (placeId ` set picks)"
      using p(1) by simp
    then have "placeId ` set ?shuffled \<subseteq> placeId ` set picks"
      by (metis nostart subset_insert)
    then have "card (placeId ` set ?shuffled) \<le> card (placeId ` set picks)"
      by (intro card_mono) simp_all
    also have "\<dots> \<le> length picks"
      by (metis card_length length_map set_map)
    finally have "length ?nearby \<le> length picks" using c1 len by simp
    then show False using enough short p(1) by simp
  qed
  have "distinct (map placeId (start # picks))" using p(1,3) by simp
  then show ?thesis using closed picks_ne upper exact by blast
qed

section \<open>Properties of the scorer\<close>

lemma foldl_plus: "foldl (\<lambda>s d. s + f d) a xs = a + sum_list (map f xs)" for a :: real
  by (induction xs arbitrary: a) simp_all

lemma segmentDistances_nonempty: "2 \<le> length rt \<Longrightarrow> segmentDistances rt \<noteq> []"
  by (cases rt rule: segmentDistances.cases) simp_all

lemma spacing_value:
  assumes "2 \<le> length rt"
  shows "calculateSegmentSpacingVariance rt =
           (if 0 < meanOf (segmentDistances rt)
            then Finite (1000 * coefficientOfVariation (segmentDistances rt)) else Infinity)"
proof -
  have m: "foldl (\<lambda>s d. s + d) 0 (segmentDistances rt) = sum_list (segmentDistances rt)"
    using foldl_plus [of "\<lambda>d. d" 0 "segmentDistances rt"] by simp
  have v: "foldl (\<lambda>s d. s + (d - mu)\<^sup>2) 0 (segmentDistances rt)
             = sum_list (map (\<lambda>d. (d - mu)\<^sup>2) (segmentDistances rt))" for mu
    using foldl_plus [of "\<lambda>d. (d - mu)\<^sup>2" 0 "segmentDistances rt"] by simp
  show ?thesis
    using assms segmentDistances_nonempty [OF assms]
    by (simp add: calculateSegmentSpacingVariance_def Let_def m v meanOf_def
          coefficientOfVariation_def standardDeviation_def)
qed

lemma score_value:
  assumes "2 \<le> length rt" "0 < meanOf (segmentDistances rt)"
  shows "snd (scoreRoute rt targetRoadKm loopPenaltyWeight spacingVarianceWeight roadDistanceMultiplier) =
           Finite (\<bar>routeDistance rt / 1000 * roadDistanceMultiplier - targetRoadKm\<bar>
                   + loopPenaltyWeight * (stopDistance (rt ! 0) (rt ! (length rt - 1)) / 1000)
                   + spacingVarianceWeight * (1000 * coefficientOfVariation (segmentDistances rt)))"
  using assms
  by (simp add: scoreRoute_def Let_def spacing_value loopnessPenalty_def)

section \<open>The example inputs, evaluated\<close>

lemma haversine_meridian:
  assumes "\<bar>la2 - la1\<bar> \<le> 180"
  shows "haversineExact la1 lo la2 lo = 6371000 * (\<bar>la2 - la1\<bar> * pi / 180)"
proof -
  define x where "x = (la2 - la1) * pi / 360"
  have ax: "\<bar>x\<bar> = \<bar>la2 - la1\<bar> * pi / 360" by (simp add: x_def abs_mult)
  have "\<bar>la2 - la1\<bar> * pi \<le> 180 * pi" using assms by (intro mult_right_mono) simp_all
  then have bound: "\<bar>x\<bar> \<le> pi / 2" unfolding ax by simp
  have "hav_central la1 lo la2 lo = (sin x)\<^sup>2" by (simp add: hav_central_def x_def)
  then have "sqrt (hav_central la1 lo la2 lo) = \<bar>sin x\<bar>" by simp
  also have "\<bar>sin x\<bar> = sin \<bar>x\<bar>"
  proof (cases "0 \<le> x")
    case True
    have "x \<le> pi" using bound pi_gt_zero by linarith
    with True have "0 \<le> sin x" by (intro sin_ge_zero)
    then show ?thesis using True by simp
  next
    case False
    have "- x \<le> pi" using bound pi_gt_zero by linarith
    with False have "0 \<le> sin (- x)" by (intro sin_ge_zero) simp_all
    then show ?thesis using False by simp
  qed
  finally have "arcsin (sqrt (hav_central la1 lo la2 lo)) = \<bar>x\<bar>"
    using bound by (simp add: arcsin_sin)
  then have h: "arcsin (sqrt (hav_central la1 lo la2 lo)) = \<bar>la2 - la1\<bar> * pi / 360"
    by (simp only: ax)
  show ?thesis unfolding haversine_arcsin h by simp
qed

lemma stop_ids [simp]: "placeId stopS = ''S''" "placeId stopA = ''A''" "placeId stopB = ''B''"
  by (simp_all add: stopS_def stopA_def stopB_def)

lemma dist_zero [simp]:
  "stopDistance stopS stopS = 0" "stopDistance stopS stopA = 0" "stopDistance stopA stopS = 0"
  by (simp_all add: stopDistance_def stopS_def stopA_def haversine_arcsin hav_central_same)

lemma dist_B:
  "stopDistance stopS stopB = 6371000 * (pi / 1800)"
  "stopDistance stopA stopB = 6371000 * (pi / 1800)"
  "stopDistance stopB stopS = 6371000 * (pi / 1800)"
  by (simp_all add: stopDistance_def stopS_def stopA_def stopB_def haversine_meridian)

lemma dist_B_bounds:
  "0 < stopDistance stopS stopB" "stopDistance stopS stopB \<le> 24140"
  "stopDistance stopS stopB < 15000"
  using pi_gt_zero pi_less_4 by (simp_all add: dist_B)

lemma dist_B_same [simp]:
  "stopDistance stopA stopB = stopDistance stopS stopB"
  "stopDistance stopB stopS = stopDistance stopS stopB"
  by (simp_all add: dist_B)

lemma nearby_example: "nearbyOf stopS [stopA, stopB, stopS] = [stopA, stopB]"
  using dist_B_bounds by (simp add: nearbyOf_def)

lemma target_pos: "0 < nStops \<Longrightarrow> 0 < targetAvgSegmentM 50 nStops"
  by (simp add: targetAvgSegmentM_def Let_def)

lemma combined_ge:
  assumes "0 < t" "0 \<le> d"
  shows "(3::real) / 10 \<le> 7 / 10 * (d / t) + 3 / 10 * (\<bar>d - t\<bar> / t)"
proof -
  have "t - d \<le> \<bar>d - t\<bar>" by simp
  then have "(t - d) / t \<le> \<bar>d - t\<bar> / t" using assms by (simp add: divide_right_mono)
  then have "1 - d / t \<le> \<bar>d - t\<bar> / t" using assms by (simp add: diff_divide_distrib)
  moreover have "0 \<le> d / t" using assms by simp
  ultimately show ?thesis by linarith
qed

lemma rank_first:
  assumes "0 < t"
  shows "map tb (rankCandidates [stopA, stopB] [stopS] t) = [stopA, stopB]"
  using assms dist_B_bounds combined_ge [of t "stopDistance stopS stopB"]
  by (simp add: rankCandidates_def Let_def)

lemma rank_second:
  "map tb (rankCandidates [stopA, stopB] [stopS, stopA] t) = [stopB]"
  by (simp add: rankCandidates_def Let_def)

lemma rank_third:
  "rankCandidates [stopA, stopB] [stopS, stopA, stopB] t = []"
  by (simp add: rankCandidates_def Let_def)


lemma select_first: "selectCandidate firstChoice iter n cs = Some (cs ! 0)"
  by (simp add: selectCandidate_def firstChoice_def)

lemma nth0_map_tb: "map tb cs = x # xs \<Longrightarrow> tb (cs ! 0) = x \<and> cs \<noteq> []"
  by (cases cs) auto

lemma extend_two:
  "extendRoute firstChoice iter 50 2 [stopA, stopB] [stopS] = Some [stopS, stopA]"
proof -
  have t: "0 < targetAvgSegmentM 50 2" by (rule target_pos) simp
  note r = nth0_map_tb [OF rank_first [OF t]]
  show ?thesis
    by (simp add: extendRoute.simps [of _ _ _ _ _ "[stopS]"]
          extendRoute.simps [of _ _ _ _ _ "[stopS, stopA]"] Let_def select_first r)
qed

lemma extend_three:
  "extendRoute firstChoice iter 50 3 [stopA, stopB] [stopS] = Some [stopS, stopA, stopB]"
proof -
  have t: "0 < targetAvgSegmentM 50 3" by (rule target_pos) simp
  note r1 = nth0_map_tb [OF rank_first [OF t]]
  note r2 = nth0_map_tb [OF rank_second [of "targetAvgSegmentM 50 3"]]
  show ?thesis
    by (simp add: extendRoute.simps [of _ _ _ _ _ "[stopS]"]
          extendRoute.simps [of _ _ _ _ _ "[stopS, stopA]"]
          extendRoute.simps [of _ _ _ _ _ "[stopS, stopA, stopB]"] Let_def select_first r1 r2)
qed

lemma close_two: "closeLoop stopS [stopS, stopA] = [stopS, stopA, stopS]"
  by (simp add: closeLoop_def)

lemma close_three: "closeLoop stopS [stopS, stopA, stopB] = [stopS, stopA, stopB, stopS]"
  by (simp add: closeLoop_def)

lemma sig_two: "routeSignature [stopS, stopA, stopS] = ''A''"
  by (simp add: routeSignature_def)

lemma sig_three: "routeSignature [stopS, stopA, stopB, stopS] = ''A,B''"
  by (simp add: routeSignature_def)

lemma dist_two: "routeDistance [stopS, stopA, stopS] = 0"
  by (simp add: routeDistance_def)

lemma dist_three: "routeDistance [stopS, stopA, stopB, stopS] = 2 * stopDistance stopS stopB"
  by (simp add: routeDistance_def)

lemma score_two: "scoreRoute [stopS, stopA, stopS] 50 0.5 0.2 1.18 = (0, Infinity)"
  by (simp add: scoreRoute_def Let_def routeDistance_def loopnessPenalty_def
        calculateSegmentSpacingVariance_def)

lemma score_three:
  "\<exists>x. scoreRoute [stopS, stopA, stopB, stopS] 50 0.5 0.2 1.18
        = (2 * stopDistance stopS stopB, Finite x)"
  using dist_B_bounds
  by (simp add: scoreRoute_def Let_def routeDistance_def loopnessPenalty_def
        calculateSegmentSpacingVariance_def)


lemma attempts_seen:
  assumes "\<And>iter. extendRoute rs iter targetKm nStops (shuffle rs iter nearby) [start] = Some grown"
    and "routeSignature (closeLoop start grown) \<in> seen"
  shows "attempts rs start nearby targetKm nStops iters routes seen = Inr routes"
  by (induction iters) (simp_all add: assms Let_def)

lemma shuffle_first [simp]: "shuffle firstChoice iter xs = xs"
  by (simp add: firstChoice_def)

lemma generate_two:
  "generateCandidateRoutes firstChoice stopS [stopA, stopB, stopS] 50 2 200 = Inr [routeTwo]"
proof -
  have seen: "attempts firstChoice stopS [stopA, stopB] 50 2 iters routes {''A''} = Inr routes"
    for iters routes
    by (rule attempts_seen [where grown = "[stopS, stopA]"])
       (simp_all add: extend_two close_two sig_two)
  have "attempts firstChoice stopS [stopA, stopB] 50 2 (0 # [1..<200]) [] {} = Inr [routeTwo]"
    using score_two
    by (simp add: extend_two close_two sig_two dist_two seen routeTwo_def Let_def)
  moreover have "[0..<200] = 0 # [1..<200]" by (simp add: upt_conv_Cons)
  ultimately show ?thesis
    by (simp add: generateCandidateRoutes_def nearby_example Let_def)
qed

lemma generate_three:
  "generateCandidateRoutes firstChoice stopS [stopA, stopB, stopS] 50 3 200 = Inr [routeThree]"
proof -
  have seen: "attempts firstChoice stopS [stopA, stopB] 50 3 iters routes {''A,B''} = Inr routes"
    for iters routes
    by (rule attempts_seen [where grown = "[stopS, stopA, stopB]"])
       (simp_all add: extend_three close_three sig_three)
  have short: "\<not> 2 * stopDistance stopS stopB / 1000 * 1.18 > 50 * 1.1"
    using dist_B_bounds by simp
  have "attempts firstChoice stopS [stopA, stopB] 50 3 (0 # [1..<200]) [] {} = Inr [routeThree]"
    using short
    by (simp add: extend_three close_three sig_three dist_three seen routeThree_def Let_def)
  moreover have "[0..<200] = 0 # [1..<200]" by (simp add: upt_conv_Cons)
  ultimately show ?thesis
    by (simp add: generateCandidateRoutes_def nearby_example Let_def)
qed

lemma score_routeThree: "\<exists>x. score routeThree = Finite x"
  using score_three by (auto simp: routeThree_def)

lemma total_routeThree: "totalDistance routeThree = 2 * stopDistance stopS stopB"
  using score_three by (auto simp: routeThree_def)

lemma combined_mono:
  assumes "0 < t" "d1 \<le> d2"
  shows "(7::real) / 10 * (d1 / t) + 3 / 10 * (\<bar>d1 - t\<bar> / t)
           \<le> 7 / 10 * (d2 / t) + 3 / 10 * (\<bar>d2 - t\<bar> / t)"
proof -
  define a where "a = \<bar>d1 - t\<bar>"
  define b where "b = \<bar>d2 - t\<bar>"
  have "a \<le> b + (d2 - d1)" unfolding a_def b_def using assms(2) by linarith
  then have "7 * d1 + 3 * a \<le> 7 * d2 + 3 * b" using assms(2) by linarith
  then have "7 * d1 + 3 * \<bar>d1 - t\<bar> \<le> 7 * d2 + 3 * \<bar>d2 - t\<bar>"
    unfolding a_def b_def .
  then have "(7 * d1 + 3 * \<bar>d1 - t\<bar>) / (10 * t) \<le> (7 * d2 + 3 * \<bar>d2 - t\<bar>) / (10 * t)"
    using assms(1) by (simp add: divide_right_mono)
  then show ?thesis using assms(1) by (simp add: field_simps)
qed

lemma rank_pair:
  assumes "0 < t"
    and "stopDistance (rt ! (length rt - 1)) a \<le> stopDistance (rt ! (length rt - 1)) b"
    and "\<forall>s \<in> set rt. placeId s \<noteq> placeId a \<and> placeId s \<noteq> placeId b"
  shows "map tb (rankCandidates [a, b] rt t) = [a, b]"
  using assms combined_mono [OF assms(1,2)]
  by (simp add: rankCandidates_def Let_def)

lemma rank_single:
  assumes "\<exists>s \<in> set rt. placeId s = placeId a"
    and "\<forall>s \<in> set rt. placeId s \<noteq> placeId b"
  shows "map tb (rankCandidates [a, b] rt t) = [b]"
  using assms by (simp add: rankCandidates_def Let_def)

lemma stop_ids_xy [simp]: "placeId stopX = ''X''" "placeId stopY = ''Y''"
  by (simp_all add: stopX_def stopY_def)

lemma dist_xy:
  "stopDistance stopS stopX = 6371000 * (pi * 0.16 / 180)"
  "stopDistance stopX stopS = 6371000 * (pi * 0.16 / 180)"
  "stopDistance stopS stopY = 6371000 * (pi * 0.162 / 180)"
  "stopDistance stopY stopS = 6371000 * (pi * 0.162 / 180)"
  "stopDistance stopX stopY = 6371000 * (pi * 0.002 / 180)"
  by (simp_all add: stopDistance_def stopS_def stopX_def stopY_def haversine_meridian)

lemma nearby_xy: "nearbyOf stopS [stopX, stopY, stopS] = [stopX, stopY]"
  using pi_less_4 by (simp add: nearbyOf_def dist_xy)

lemma extend_x:
  "extendRoute firstChoice iter 50 2 [stopX, stopY] [stopS] = Some [stopS, stopX]"
proof -
  have t: "0 < targetAvgSegmentM 50 2" by (rule target_pos) simp
  have "map tb (rankCandidates [stopX, stopY] [stopS] (targetAvgSegmentM 50 2)) = [stopX, stopY]"
    by (rule rank_pair [OF t]) (simp_all add: dist_xy)
  note r = nth0_map_tb [OF this]
  show ?thesis
    by (simp add: extendRoute.simps [of _ _ _ _ _ "[stopS]"]
          extendRoute.simps [of _ _ _ _ _ "[stopS, stopX]"] Let_def select_first r)
qed

lemma extend_xy:
  "extendRoute firstChoice iter 50 3 [stopX, stopY] [stopS] = Some [stopS, stopX, stopY]"
proof -
  have t: "0 < targetAvgSegmentM 50 3" by (rule target_pos) simp
  have "map tb (rankCandidates [stopX, stopY] [stopS] (targetAvgSegmentM 50 3)) = [stopX, stopY]"
    by (rule rank_pair [OF t]) (simp_all add: dist_xy)
  note r1 = nth0_map_tb [OF this]
  have "map tb (rankCandidates [stopX, stopY] [stopS, stopX] (targetAvgSegmentM 50 3)) = [stopY]"
    by (rule rank_single) simp_all
  note r2 = nth0_map_tb [OF this]
  show ?thesis
    by (simp add: extendRoute.simps [of _ _ _ _ _ "[stopS]"]
          extendRoute.simps [of _ _ _ _ _ "[stopS, stopX]"]
          extendRoute.simps [of _ _ _ _ _ "[stopS, stopX, stopY]"] Let_def select_first r1 r2)
qed

lemma generate_x:
  "generateCandidateRoutes firstChoice stopS [stopX, stopY, stopS] 50 2 200 = Inr [routeX]"
proof -
  have c: "closeLoop stopS [stopS, stopX] = [stopS, stopX, stopS]" by (simp add: closeLoop_def)
  have s: "routeSignature [stopS, stopX, stopS] = ''X''" by (simp add: routeSignature_def)
  have seen: "attempts firstChoice stopS [stopX, stopY] 50 2 iters routes {''X''} = Inr routes"
    for iters routes
    by (rule attempts_seen [where grown = "[stopS, stopX]"]) (simp_all add: extend_x c s)
  have short: "\<not> routeDistance [stopS, stopX, stopS] / 1000 * 1.18 > 50 * 1.1"
    using pi_less_4 by (simp add: routeDistance_def dist_xy)
  have "attempts firstChoice stopS [stopX, stopY] 50 2 (0 # [1..<200]) [] {} = Inr [routeX]"
    using short by (simp add: extend_x c s seen routeX_def Let_def)
  moreover have "[0..<200] = 0 # [1..<200]" by (simp add: upt_conv_Cons)
  ultimately show ?thesis
    by (simp add: generateCandidateRoutes_def nearby_xy Let_def)
qed

lemma generate_xy:
  "generateCandidateRoutes firstChoice stopS [stopX, stopY, stopS] 50 3 200 = Inr [routeXY]"
proof -
  have c: "closeLoop stopS [stopS, stopX, stopY] = [stopS, stopX, stopY, stopS]"
    by (simp add: closeLoop_def)
  have s: "routeSignature [stopS, stopX, stopY, stopS] = ''X,Y''" by (simp add: routeSignature_def)
  have seen: "attempts firstChoice stopS [stopX, stopY] 50 3 iters routes {''X,Y''} = Inr routes"
    for iters routes
    by (rule attempts_seen [where grown = "[stopS, stopX, stopY]"]) (simp_all add: extend_xy c s)
  have short: "\<not> routeDistance [stopS, stopX, stopY, stopS] / 1000 * 1.18 > 50 * 1.1"
    using pi_less_4 by (simp add: routeDistance_def dist_xy)
  have "attempts firstChoice stopS [stopX, stopY] 50 3 (0 # [1..<200]) [] {} = Inr [routeXY]"
    using short by (simp add: extend_xy c s seen routeXY_def Let_def)
  moreover have "[0..<200] = 0 # [1..<200]" by (simp add: upt_conv_Cons)
  ultimately show ?thesis
    by (simp add: generateCandidateRoutes_def nearby_xy Let_def)
qed

lemma legs_unevenLoop:
  "segmentDistances [stopS, stopB, stopC, stopS] =
     [6371000 * (pi / 1800), 6371000 * (pi / 1800), 6371000 * (pi / 900)]"
  by (simp add: stopDistance_def stopS_def stopB_def stopC_def haversine_meridian)

lemma mean_unevenLoop: "meanOf (segmentDistances [stopS, stopB, stopC, stopS]) = 6371000 * (pi / 1350)"
  unfolding legs_unevenLoop by (simp add: meanOf_def)

lemma cv_unevenLoop: "coefficientOfVariation (segmentDistances [stopS, stopB, stopC, stopS]) = sqrt 2 / 4"
proof -
  define u where "u = 6371000 * (pi / 5400)"
  have u: "0 < u" by (simp add: u_def)
  have legs: "segmentDistances [stopS, stopB, stopC, stopS] = [3 * u, 3 * u, 6 * u]"
    unfolding legs_unevenLoop by (simp add: u_def)
  have mu: "meanOf [3 * u, 3 * u, 6 * u] = 4 * u" by (simp add: meanOf_def)
  have "sum_list (map (\<lambda>x. (x - 4 * u)\<^sup>2) [3 * u, 3 * u, 6 * u]) / real (length [3 * u, 3 * u, 6 * u])
          = 2 * u\<^sup>2"
    by (simp add: power2_eq_square algebra_simps)
  then have "standardDeviation [3 * u, 3 * u, 6 * u] = sqrt 2 * u"
    unfolding standardDeviation_def mu using u by (simp add: real_sqrt_mult)
  then show ?thesis
    unfolding legs coefficientOfVariation_def mu using u by simp
qed




lemma isTacoBell_known:
  "isTacoBell (placeOf stopA)" "isTacoBell (placeOf stopB)"
  "isTacoBell (placeOf stopX)" "isTacoBell (placeOf stopY)"
  by code_simp+

lemma trim_known:
  "trim ''100 Main St'' = ''100 Main St''" "trim ''200 North Ave'' = ''200 North Ave''"
  "trim ''16 Canyon Rd'' = ''16 Canyon Rd''" "trim ''18 Canyon Rd'' = ''18 Canyon Rd''"
  by code_simp+

lemma details_known:
  "detailsOf ''A'' = Some \<lparr>details_place_id = ''A'', details_name = ''Taco Bell Cantina'',
      details_lat = 34, details_lng = - 118, extractedAddress = ''100 Main St''\<rparr>"
  "detailsOf ''B'' = Some \<lparr>details_place_id = ''B'', details_name = ''Taco Bell'',
      details_lat = 34.1, details_lng = - 118, extractedAddress = ''200 North Ave''\<rparr>"
  "detailsOf ''X'' = Some \<lparr>details_place_id = ''X'', details_name = ''Taco Bell'',
      details_lat = 34.16, details_lng = - 118, extractedAddress = ''16 Canyon Rd''\<rparr>"
  "detailsOf ''Y'' = Some \<lparr>details_place_id = ''Y'', details_name = ''Taco Bell'',
      details_lat = 34.162, details_lng = - 118, extractedAddress = ''18 Canyon Rd''\<rparr>"
  by (simp_all add: detailsOf_def stopA_def stopB_def stopX_def stopY_def)

lemma convert_known:
  "convertPlace (lookupServices ps f) k (placeOf stopA) = [stopA]"
  "convertPlace (lookupServices ps f) k (placeOf stopB) = [stopB]"
  "convertPlace (lookupServices ps f) k (placeOf stopX) = [stopX]"
  "convertPlace (lookupServices ps f) k (placeOf stopY) = [stopY]"
  using isTacoBell_known
  by (simp_all add: convertPlace_def lookupServices_def Let_def placeOf_def details_known trim_known
        stopA_def stopB_def stopX_def stopY_def)

lemma find_known:
  "findTacoBells (lookupServices ps f) la lo r =
     Inr (concat (map (\<lambda>(k, place). convertPlace (lookupServices ps f) k place) (enumerate 0 ps)))"
  by (simp add: findTacoBells_def Let_def lookupServices_def)

lemma find_examples:
  "findTacoBells oracleDown la lo r = Inr [stopA, stopB]"
  "findTacoBells duplicatedLookup la lo r = Inr [stopA, stopA]"
  "findTacoBells roadAnswers la lo r = Inr [stopX, stopY]"
  unfolding oracleDown_def duplicatedLookup_def roadAnswers_def find_known
  by (simp_all add: convert_known)

lemma details_echo: "detailsOf pid = Some d \<Longrightarrow> details_place_id d = pid"
  by (auto simp: detailsOf_def stopA_def stopB_def stopX_def stopY_def split: if_splits)

lemma message_example: "notEnoughMessage 2 8 = ''Not enough Taco Bells found. Found 2, need at least 8''"
proof -
  have "showNat 2 = ''2''" "showInt 8 = ''8''" by code_simp+
  then show ?thesis by (simp add: notEnoughMessage_def)
qed


lemma candidates_known:
  assumes "minTacoBells config = 2" "maxTacoBells config = 3"
  shows "candidateRoutesOf (lookupServices ps f) stopS [stopA, stopB, stopS] 50 config
           = [routeTwo, routeThree]"
    and "candidateRoutesOf (lookupServices ps f) stopS [stopX, stopY, stopS] 50 config
           = [routeX, routeXY]"
proof -
  have "[2 .. 3 :: int] = [2, 3]" by (simp add: upto.simps)
  then show
    "candidateRoutesOf (lookupServices ps f) stopS [stopA, stopB, stopS] 50 config
       = [routeTwo, routeThree]"
    "candidateRoutesOf (lookupServices ps f) stopS [stopX, stopY, stopS] 50 config
       = [routeX, routeXY]"
    using assms
    by (simp_all add: candidateRoutesOf_def lookupServices_def generate_two generate_three
          generate_x generate_xy)
qed

lemma score_order: "score routeThree < score routeTwo"
  using score_routeThree by (auto simp: routeTwo_def less_jsnum_def)

lemma append_start:
  "(if \<exists>t \<in> set [stopA, stopB]. placeId t = placeId stopS then [stopA, stopB]
    else [stopA, stopB] @ [stopS]) = [stopA, stopB, stopS]"
  "(if \<exists>t \<in> set [stopX, stopY]. placeId t = placeId stopS then [stopX, stopY]
    else [stopX, stopY] @ [stopS]) = [stopX, stopY, stopS]"
  by simp_all

lemma verify_down:
  "verifyLoop oracleDown twoToThree 50 1 0 [routeTwo, routeThree] initialVerifyState
     = initialVerifyState\<lparr>requests := 2\<rparr>"
  by (simp add: verifyCandidate_def oracleDown_def lookupServices_def initialVerifyState_def Let_def)

lemma run_down:
  "findOptimalRoute oracleDown stopS twoToThree =
     \<lparr>result = Success [stopS, stopA] (Finite 0), oracleRequests = 2, apiCallsUsed = 0\<rparr>"
proof -
  have f: "findTacoBells oracleDown (lat stopS) (lng stopS) (searchRadiusMiles twoToThree)
             = Inr [stopA, stopB]"
    by (rule find_examples)
  have m: "effectiveMaxApiCalls twoToThree = 1" "minTacoBells twoToThree = 2"
    "maxTacoBells twoToThree = 3"
    by (simp_all add: effectiveMaxApiCalls_def twoToThree_def)
  have c: "candidateRoutesOf oracleDown stopS [stopA, stopB, stopS] 50 twoToThree
             = [routeTwo, routeThree]"
    unfolding oracleDown_def by (rule candidates_known(1) [OF m(2,3)])
  have t: "take 5 [routeTwo, routeThree] = [routeTwo, routeThree]" by simp
  have r: "butlast (stops routeTwo) = [stopS, stopA]" "totalDistance routeTwo = 0"
    by (simp_all add: routeTwo_def)
  show ?thesis
    unfolding findOptimalRoute_def Let_def f sum.case m append_start c t verify_down
    by (simp add: initialVerifyState_def r)
qed

lemma verify_road:
  "verifyLoop roadAnswers milesBand 50 50 0 [routeX, routeXY] initialVerifyState
     = \<lparr>bestRoute = Some routeX, bestActualDistance = Finite 48500, bestRouteIndex = 0,
        apiCallCount = 2, requests = 2\<rparr>"
proof -
  have first: "verifyCandidate roadAnswers milesBand 50 0 routeX initialVerifyState
      = \<lparr>bestRoute = Some routeX, bestActualDistance = Finite 48500, bestRouteIndex = 0,
         apiCallCount = 1, requests = 1\<rparr>"
    by (simp add: verifyCandidate_def roadAnswers_def lookupServices_def initialVerifyState_def
          Let_def considerVerified_def milesBand_def)
  have second: "verifyCandidate roadAnswers milesBand 50 (Suc 0) routeXY
        \<lparr>bestRoute = Some routeX, bestActualDistance = Finite 48500, bestRouteIndex = 0,
         apiCallCount = 1, requests = Suc 0\<rparr>
      = \<lparr>bestRoute = Some routeX, bestActualDistance = Finite 48500, bestRouteIndex = 0,
         apiCallCount = 2, requests = 2\<rparr>"
    unfolding verifyCandidate_def
    by (simp add: roadAnswers_def lookupServices_def Let_def
          considerVerified_def milesBand_def less_jsnum_def)
  have a: "apiCallCount initialVerifyState = 0" by (simp add: initialVerifyState_def)
  show ?thesis
    by (simp add: first second a)
qed

lemma run_road:
  "findOptimalRoute roadAnswers stopS milesBand =
     \<lparr>result = Success [stopS, stopX] (Finite 48500), oracleRequests = 2, apiCallsUsed = 2\<rparr>"
proof -
  have f: "findTacoBells roadAnswers (lat stopS) (lng stopS) (searchRadiusMiles milesBand)
             = Inr [stopX, stopY]"
    by (rule find_examples)
  have m: "effectiveMaxApiCalls milesBand = 50" "minTacoBells milesBand = 2"
    "maxTacoBells milesBand = 3"
    by (simp_all add: effectiveMaxApiCalls_def milesBand_def)
  have c: "candidateRoutesOf roadAnswers stopS [stopX, stopY, stopS] 50 milesBand
             = [routeX, routeXY]"
    unfolding roadAnswers_def by (rule candidates_known(2) [OF m(2,3)])
  have t: "take 5 [routeX, routeXY] = [routeX, routeXY]" by simp
  have r: "butlast (stops routeX) = [stopS, stopX]" by (simp add: routeX_def)
  show ?thesis
    unfolding findOptimalRoute_def Let_def f sum.case m append_start c t verify_road
    by (simp add: r)
qed

lemma run_one_call:
  "findOptimalRoute roadAnswers stopS milesBandOneCall =
     \<lparr>result = Success [stopS, stopX] (Finite 48500), oracleRequests = 1, apiCallsUsed = 1\<rparr>"
proof -
  have f: "findTacoBells roadAnswers (lat stopS) (lng stopS) (searchRadiusMiles milesBandOneCall)
             = Inr [stopX, stopY]"
    by (rule find_examples)
  have m: "effectiveMaxApiCalls milesBandOneCall = 1" "minTacoBells milesBandOneCall = 2"
    "maxTacoBells milesBandOneCall = 3"
    by (simp_all add: effectiveMaxApiCalls_def milesBandOneCall_def milesBand_def)
  have c: "candidateRoutesOf roadAnswers stopS [stopX, stopY, stopS] 50 milesBandOneCall
             = [routeX, routeXY]"
    unfolding roadAnswers_def by (rule candidates_known(2) [OF m(2,3)])
  have t: "take 5 [routeX, routeXY] = [routeX, routeXY]" by simp
  have r: "butlast (stops routeX) = [stopS, stopX]" by (simp add: routeX_def)
  have first: "verifyCandidate roadAnswers milesBandOneCall 50 0 routeX initialVerifyState
      = \<lparr>bestRoute = Some routeX, bestActualDistance = Finite 48500, bestRouteIndex = 0,
         apiCallCount = 1, requests = 1\<rparr>"
    by (simp add: verifyCandidate_def roadAnswers_def lookupServices_def initialVerifyState_def
          Let_def considerVerified_def milesBandOneCall_def milesBand_def)
  have a: "apiCallCount initialVerifyState = 0" by (simp add: initialVerifyState_def)
  have v: "verifyLoop roadAnswers milesBandOneCall 50 1 0 [routeX, routeXY] initialVerifyState
      = \<lparr>bestRoute = Some routeX, bestActualDistance = Finite 48500, bestRouteIndex = 0,
         apiCallCount = 1, requests = 1\<rparr>"
    by (simp add: first a)
  show ?thesis
    unfolding findOptimalRoute_def Let_def f sum.case m append_start c t v
    by (simp add: r)
qed

lemma generate_duplicates:
  "generateCandidateRoutes firstChoice stopS [stopA, stopA] 50 3 200 = Inr [routeTwo]"
proof -
  have t: "0 < targetAvgSegmentM 50 3" by (rule target_pos) simp
  have n: "nearbyOf stopS [stopA, stopA] = [stopA, stopA]" by (simp add: nearbyOf_def)
  have "map tb (rankCandidates [stopA, stopA] [stopS] (targetAvgSegmentM 50 3)) = [stopA, stopA]"
    by (rule rank_pair [OF t]) simp_all
  note r1 = nth0_map_tb [OF this]
  have r2: "rankCandidates [stopA, stopA] [stopS, stopA] (targetAvgSegmentM 50 3) = []"
    by (simp add: rankCandidates_def Let_def)
  have e: "extendRoute firstChoice iter 50 3 [stopA, stopA] [stopS] = Some [stopS, stopA]" for iter
    by (simp add: extendRoute.simps [of _ _ _ _ _ "[stopS]"]
          extendRoute.simps [of _ _ _ _ _ "[stopS, stopA]"] Let_def select_first r1 r2)
  have seen: "attempts firstChoice stopS [stopA, stopA] 50 3 iters routes {''A''} = Inr routes"
    for iters routes
    by (rule attempts_seen [where grown = "[stopS, stopA]"]) (simp_all add: e close_two sig_two)
  have "attempts firstChoice stopS [stopA, stopA] 50 3 (0 # [1..<200]) [] {} = Inr [routeTwo]"
    using score_two
    by (simp add: e close_two sig_two dist_two seen routeTwo_def Let_def)
  moreover have "[0..<200] = 0 # [1..<200]" by (simp add: upt_conv_Cons)
  ultimately show ?thesis
    by (simp add: generateCandidateRoutes_def n Let_def)
qed

lemma firstChoice_wellFormed: "wellFormedRandom firstChoice"
  by (simp add: wellFormedRandom_def firstChoice_def)

lemma convert_ids:
  assumes "\<And>k pid d. getPlaceDetails sv k pid = Some d \<Longrightarrow> details_place_id d = pid"
  shows "map placeId (convertPlace sv k place)
           = (if isTacoBell place \<and> geometry place \<noteq> None then [place_id place] else [])"
  using assms
  by (auto simp: convertPlace_def Let_def split: option.splits)

lemma convert_all_ids:
  assumes "\<And>k pid d. getPlaceDetails sv k pid = Some d \<Longrightarrow> details_place_id d = pid"
  shows "map placeId (concat (map (\<lambda>(k, place). convertPlace sv k place) (enumerate n places)))
           = map place_id (filter (\<lambda>p. isTacoBell p \<and> geometry p \<noteq> None) places)"
proof (induction places arbitrary: n)
  case Nil
  then show ?case by simp
next
  case (Cons p ps)
  show ?case using Cons.IH [of "Suc n"] by (simp add: convert_ids [OF assms])
qed

lemma convert_length:
  "length (convertPlace sv k place) = (if isTacoBell place \<and> geometry place \<noteq> None then 1 else 0)"
  by (auto simp: convertPlace_def Let_def split: option.splits)

lemma convert_all_length:
  "length (concat (map (\<lambda>(k, place). convertPlace sv k place) (enumerate n places)))
     = length (filter (\<lambda>p. isTacoBell p \<and> geometry p \<noteq> None) places)"
proof (induction places arbitrary: n)
  case Nil
  then show ?case by simp
next
  case (Cons p ps)
  show ?case using Cons.IH [of "Suc n"] by (simp add: convert_length)
qed

section \<open>The specified properties\<close>

text \<open>
  C1. When generation yields at least one route and no oracle call yields a distance in
  range, the search succeeds with the stops of the single best-scored generated
  candidate, its closing start removed, and that candidate's haversine estimate.

  The code returns the first element of the merged candidate array, which is never
  sorted across stop counts. With the start \<open>stopS\<close>, the lookup result \<open>stopA\<close>, \<open>stopB\<close>,
  2 to 3 stops and a directions oracle that always fails, the search returns the
  two-stop loop (score \<^verbatim>\<open>Infinity\<close>) although the three-stop loop was generated with a
  strictly better score.
\<close>

theorem fallback_is_first_not_best:
  "result (findOptimalRoute oracleDown stopS twoToThree)
     = Success (butlast (stops routeTwo)) (Finite (totalDistance routeTwo))
   \<and> candidateRoutesOf oracleDown stopS [stopA, stopB, stopS] 50 twoToThree = [routeTwo, routeThree]
   \<and> score routeThree < score routeTwo"
proof -
  have "candidateRoutesOf oracleDown stopS [stopA, stopB, stopS] 50 twoToThree
          = [routeTwo, routeThree]"
    unfolding oracleDown_def by (rule candidates_known(1)) (simp_all add: twoToThree_def)
  then show ?thesis using score_order by (simp add: run_down routeTwo_def)
qed

text \<open>
  C2 (as amended). When the lookup returns fewer stops than \<open>minTacoBells\<close>, the search
  fails: the result is \<^verbatim>\<open>{ success: false, error }\<close>, whose only error information is the
  message \<^verbatim>\<open>Not enough Taco Bells found. Found <n>, need at least <min>\<close>; it carries no
  error kind, no route and no distance, and no oracle request is made.
\<close>

theorem findOptimalRoute_too_few_stops:
  assumes "findTacoBells sv (lat startTacoBell) (lng startTacoBell) (searchRadiusMiles config) = Inr found"
    and "int (length found) < minTacoBells config"
  shows "findOptimalRoute sv startTacoBell config =
           \<lparr>result = Failure (notEnoughMessage (length found) (minTacoBells config)),
            oracleRequests = 0, apiCallsUsed = 0\<rparr>"
  using assms by (simp add: findOptimalRoute_def)

theorem findOptimalRoute_too_few_stops_witness:
  "findTacoBells oracleDown (lat stopS) (lng stopS) (searchRadiusMiles defaultConfig) = Inr [stopA, stopB]
   \<and> int (length [stopA, stopB]) < minTacoBells defaultConfig
   \<and> result (findOptimalRoute oracleDown stopS defaultConfig)
       = Failure ''Not enough Taco Bells found. Found 2, need at least 8''"
proof -
  have f: "findTacoBells oracleDown (lat stopS) (lng stopS) (searchRadiusMiles defaultConfig)
             = Inr [stopA, stopB]"
    by (rule find_examples)
  have l: "int (length [stopA, stopB]) < minTacoBells defaultConfig"
    by (simp add: defaultConfig_def)
  have m: "minTacoBells defaultConfig = 8" by (simp add: defaultConfig_def)
  have n: "length [stopA, stopB] = 2" by simp
  have "result (findOptimalRoute oracleDown stopS defaultConfig) = Failure (notEnoughMessage 2 8)"
    using findOptimalRoute_too_few_stops [OF f l] unfolding n m by simp
  then show ?thesis using f l by (simp only: message_example simp_thms)
qed

text \<open>
  C2 as stated fails: the result carries no error kind. Every failure leaves through the
  one \<^verbatim>\<open>catch\<close> block as \<^verbatim>\<open>{ success: false, error: message }\<close>, so the search over a pool of
  two stops (fewer than the eight required) and the search whose lookup request failed
  with the same text return the same result.
\<close>

theorem failure_result_carries_only_message:
  "findTacoBells oracleDown (lat stopS) (lng stopS) (searchRadiusMiles defaultConfig)
     = Inr [stopA, stopB]
   \<and> findTacoBells lookupFails (lat stopS) (lng stopS) (searchRadiusMiles defaultConfig)
     = Inl ''Not enough Taco Bells found. Found 2, need at least 8''
   \<and> result (findOptimalRoute oracleDown stopS defaultConfig)
     = Failure ''Not enough Taco Bells found. Found 2, need at least 8''
   \<and> result (findOptimalRoute lookupFails stopS defaultConfig)
     = result (findOptimalRoute oracleDown stopS defaultConfig)"
proof -
  have f: "findTacoBells oracleDown (lat stopS) (lng stopS) (searchRadiusMiles defaultConfig)
             = Inr [stopA, stopB]"
    by (rule find_examples)
  have g: "findTacoBells lookupFails (lat stopS) (lng stopS) (searchRadiusMiles defaultConfig)
             = Inl ''Not enough Taco Bells found. Found 2, need at least 8''"
    by (simp add: findTacoBells_def lookupFails_def Let_def)
  have m: "minTacoBells defaultConfig = 8" by (simp add: defaultConfig_def)
  have n: "length [stopA, stopB] = 2" by simp
  have a: "result (findOptimalRoute oracleDown stopS defaultConfig)
             = Failure ''Not enough Taco Bells found. Found 2, need at least 8''"
    unfolding findOptimalRoute_def Let_def f sum.case n m
    by (simp add: message_example)
  have b: "result (findOptimalRoute lookupFails stopS defaultConfig)
             = Failure ''Not enough Taco Bells found. Found 2, need at least 8''"
    unfolding findOptimalRoute_def Let_def g sum.case by simp
  show ?thesis using f g a b by simp
qed

text \<open>
  C3. The number of calls made to the directions oracle never exceeds \<open>maxApiCalls\<close> when it
  is set.

  The loop stops before a call once \<open>apiCallCount\<close> has reached the ceiling, and it
  increments \<open>apiCallCount\<close> after the call has returned: a call that throws is made and
  not counted. With \<open>maxApiCalls = 1\<close> and an oracle whose calls all throw, two calls are
  made; with the same ceiling and an oracle that answers, the loop stops after one.
\<close>

theorem failed_requests_exceed_maxApiCalls:
  "maxApiCalls twoToThree = Some 1
   \<and> oracleRequests (findOptimalRoute oracleDown stopS twoToThree) = 2
   \<and> maxApiCalls milesBandOneCall = Some 1
   \<and> oracleRequests (findOptimalRoute roadAnswers stopS milesBandOneCall) = 1"
  by (simp add: run_down run_one_call) (simp add: twoToThree_def milesBandOneCall_def)

text \<open>
  C4 (as amended). For \<open>nStops \<ge> 2\<close>, every loop the generator returns starts and ends
  with the start stop, and no identifier repeats among the start and the stops between:
  no interior identifier repeats and none is the start's. There is at least one
  interior stop and there are at most \<open>nStops - 1\<close>; when the identifiers of the pool
  are pairwise distinct there are exactly \<open>nStops - 1\<close>, which with the start makes
  \<open>nStops\<close> distinct stops.
\<close>

theorem generated_loops_closed:
  assumes "wellFormedRandom rs"
    and "2 \<le> nStops"
    and "generateCandidateRoutes rs start allTacoBells targetKm nStops iterations = Inr routes"
    and "c \<in> set routes"
  shows "\<exists>interior. stops c = start # interior @ [start]
           \<and> distinct (map placeId (start # interior))
           \<and> interior \<noteq> []
           \<and> int (length interior) \<le> nStops - 1
           \<and> (distinct (map placeId allTacoBells) \<longrightarrow> int (length interior) = nStops - 1)"
proof -
  let ?Q = "\<lambda>rt. \<exists>interior. rt = start # interior @ [start]
           \<and> distinct (map placeId (start # interior))
           \<and> interior \<noteq> []
           \<and> int (length interior) \<le> nStops - 1
           \<and> (distinct (map placeId allTacoBells) \<longrightarrow> int (length interior) = nStops - 1)"
  have "\<forall>c \<in> set routes. ?Q (stops c)"
    by (rule generate_routes [OF assms(3)]) (rule attempt_closed_loop [OF assms(1,2)])
  then show ?thesis using assms(4) by blast
qed

theorem generated_loops_closed_witness:
  "wellFormedRandom firstChoice
   \<and> (2 :: int) \<le> 3
   \<and> generateCandidateRoutes firstChoice stopS [stopA, stopB, stopS] 50 3 200 = Inr [routeThree]
   \<and> routeThree \<in> set [routeThree]
   \<and> distinct (map placeId [stopA, stopB, stopS])
   \<and> stops routeThree = stopS # [stopA, stopB] @ [stopS]
   \<and> int (length [stopA, stopB]) = 3 - 1"
proof -
  have n: "(2 :: int) \<le> 3" by simp
  have m: "routeThree \<in> set [routeThree]" by simp
  obtain interior where "stops routeThree = stopS # interior @ [stopS]"
    "distinct (map placeId [stopA, stopB, stopS]) \<longrightarrow> int (length interior) = 3 - 1"
    using generated_loops_closed [OF firstChoice_wellFormed n generate_three m] by blast
  then show ?thesis
    using firstChoice_wellFormed generate_three by (simp add: routeThree_def)
qed

text \<open>
  C4 as stated fails on a pool in which an identifier repeats (the pool builder does not
  remove duplicates): asked for three stops from the pool \<open>stopA\<close>, \<open>stopA\<close>, the generator
  runs out of candidates and returns a loop with the two stops \<open>S\<close> and \<open>A\<close>.
\<close>

theorem duplicate_pool_short_loop:
  "generateCandidateRoutes firstChoice stopS [stopA, stopA] 50 3 200 = Inr [routeTwo]
   \<and> map placeId (butlast (stops routeTwo)) = [''S'', ''A'']"
  by (simp add: generate_duplicates) (simp add: routeTwo_def)

text \<open>
  C5. A verified candidate whose distance is in range and closer to the 50 km target than
  the current best becomes the new best.

  The code requires a new best to be strictly shorter than the current best as well.
  With the band of 30 to 34 miles, the first candidate verified at 48500 m and the
  second at 50100 m, the second is in range and closer to the target (0.1 km against
  1.5 km), and the first is kept and returned.
\<close>

theorem closer_longer_candidate_not_adopted:
  "verifyLoop roadAnswers milesBand 50 50 0 [routeX, routeXY] initialVerifyState
     = \<lparr>bestRoute = Some routeX, bestActualDistance = Finite 48500, bestRouteIndex = 0,
        apiCallCount = 2, requests = 2\<rparr>
   \<and> calculateRoute roadAnswers 1 stopS stopS [stopX, stopY] = Inr [[24300, 300, 25500]]
   \<and> minDistanceMeters milesBand \<le> 50100 \<and> 50100 \<le> maxDistanceMeters milesBand
   \<and> \<bar>50100 / 1000 - 50\<bar> < \<bar>48500 / 1000 - (50 :: real)\<bar>
   \<and> result (findOptimalRoute roadAnswers stopS milesBand) = Success [stopS, stopX] (Finite 48500)"
  unfolding verify_road run_road
  by (simp add: roadAnswers_def lookupServices_def milesBand_def)

text \<open>
  C6. The per-stop-count results are merged and re-sorted by score, so that the five
  candidates handed to verification are the five best-scored across all stop counts.

  The code concatenates the results in the order of the stop counts and takes the first
  five, without sorting. For the start \<open>stopS\<close> and the pool \<open>stopA\<close>, \<open>stopB\<close>, \<open>stopS\<close> with
  2 to 3 stops, the candidates handed to verification are the two-stop loop and then
  the three-stop loop, whose score is strictly better.
\<close>

theorem merged_candidates_unsorted:
  "take 5 (candidateRoutesOf oracleDown stopS [stopA, stopB, stopS] 50 twoToThree)
     = [routeTwo, routeThree]
   \<and> score routeThree < score routeTwo
   \<and> \<not> sorted (map score
           (take 5 (candidateRoutesOf oracleDown stopS [stopA, stopB, stopS] 50 twoToThree)))"
proof -
  have "candidateRoutesOf oracleDown stopS [stopA, stopB, stopS] 50 twoToThree
          = [routeTwo, routeThree]"
    unfolding oracleDown_def by (rule candidates_known(1)) (simp_all add: twoToThree_def)
  then show ?thesis using score_order by simp
qed

text \<open>
  C7 (as amended). For a route of at least two stops, the spacing sub-score is 1000 times
  the coefficient of variation of the leg distances (the code scales it "to km scale")
  when the mean leg distance is positive, and \<^verbatim>\<open>Infinity\<close> when it is 0. In the first
  case the score is the weighted sum of the distance deviation, the closing distance in
  km and that sub-score, so that with a positive weight a lower variation gives a lower
  score.
\<close>

theorem spacing_subscore_is_scaled_cv:
  assumes "2 \<le> length rt"
  shows "calculateSegmentSpacingVariance rt =
           (if 0 < meanOf (segmentDistances rt)
            then Finite (1000 * coefficientOfVariation (segmentDistances rt)) else Infinity)
         \<and> (0 < meanOf (segmentDistances rt) \<longrightarrow>
              snd (scoreRoute rt targetRoadKm loopPenaltyWeight spacingVarianceWeight
                     roadDistanceMultiplier) =
              Finite (\<bar>routeDistance rt / 1000 * roadDistanceMultiplier - targetRoadKm\<bar>
                      + loopPenaltyWeight * (stopDistance (rt ! 0) (rt ! (length rt - 1)) / 1000)
                      + spacingVarianceWeight
                          * (1000 * coefficientOfVariation (segmentDistances rt))))"
  using assms spacing_value [of rt] score_value [of rt] by simp

theorem spacing_subscore_is_scaled_cv_witness:
  "2 \<le> length [stopS, stopB, stopC, stopS]
   \<and> 0 < meanOf (segmentDistances [stopS, stopB, stopC, stopS])
   \<and> calculateSegmentSpacingVariance [stopS, stopB, stopC, stopS] = Finite (250 * sqrt 2)"
proof -
  have l: "2 \<le> length [stopS, stopB, stopC, stopS]" by simp
  have m: "0 < meanOf (segmentDistances [stopS, stopB, stopC, stopS])"
    unfolding mean_unevenLoop by simp
  have "calculateSegmentSpacingVariance [stopS, stopB, stopC, stopS] =
          Finite (1000 * coefficientOfVariation (segmentDistances [stopS, stopB, stopC, stopS]))"
    using spacing_subscore_is_scaled_cv [OF l] m by presburger
  then show ?thesis using l m unfolding cv_unevenLoop by simp
qed

text \<open>
  C7 as stated fails: on the closed loop \<open>stopS\<close>, \<open>stopB\<close>, \<open>stopC\<close>, \<open>stopS\<close> (legs in the
  ratio 1 : 1 : 2) the sub-score is not the coefficient of variation.
\<close>

theorem spacing_subscore_not_plain_cv:
  "calculateSegmentSpacingVariance [stopS, stopB, stopC, stopS]
     \<noteq> Finite (coefficientOfVariation (segmentDistances [stopS, stopB, stopC, stopS]))"
proof -
  have "calculateSegmentSpacingVariance [stopS, stopB, stopC, stopS] = Finite (1000 * (sqrt 2 / 4))"
    unfolding cv_unevenLoop [symmetric]
    by (subst spacing_value) (simp_all add: mean_unevenLoop del: segmentDistances.simps)
  then show ?thesis unfolding cv_unevenLoop by simp
qed

text \<open>
  C8 (as amended). The pool builder returns one stop for every lookup result that has a
  location and passes the category and brand-name filter; it removes no duplicates.
  When the details service answers with the identifier it was asked for, the
  identifiers of the returned stops are, in lookup order, those of the passing lookup
  results, so they are pairwise distinct exactly when those are.
\<close>

theorem findTacoBells_keeps_every_match:
  assumes "searchNearbyPlaces sv centerLat centerLng (radiusMiles * 1609.34) ''Taco Bell'' = Inr places"
  shows "\<exists>found. findTacoBells sv centerLat centerLng radiusMiles = Inr found
           \<and> length found = length (filter (\<lambda>p. isTacoBell p \<and> geometry p \<noteq> None) places)
           \<and> ((\<forall>k pid d. getPlaceDetails sv k pid = Some d \<longrightarrow> details_place_id d = pid) \<longrightarrow>
                map placeId found
                  = map place_id (filter (\<lambda>p. isTacoBell p \<and> geometry p \<noteq> None) places))"
proof -
  let ?found = "concat (map (\<lambda>(k, place). convertPlace sv k place) (enumerate 0 places))"
  have f: "findTacoBells sv centerLat centerLng radiusMiles = Inr ?found"
    using assms by (simp add: findTacoBells_def Let_def)
  have l: "length ?found = length (filter (\<lambda>p. isTacoBell p \<and> geometry p \<noteq> None) places)"
    by (rule convert_all_length)
  have "map placeId ?found = map place_id (filter (\<lambda>p. isTacoBell p \<and> geometry p \<noteq> None) places)"
    if "\<forall>k pid d. getPlaceDetails sv k pid = Some d \<longrightarrow> details_place_id d = pid"
    by (rule convert_all_ids) (use that in blast)
  then show ?thesis using f l by blast
qed

theorem findTacoBells_keeps_every_match_witness:
  "searchNearbyPlaces oracleDown 34 (- 118) (15 * 1609.34) ''Taco Bell'' = Inr [placeOf stopA, placeOf stopB]
   \<and> findTacoBells oracleDown 34 (- 118) 15 = Inr [stopA, stopB]
   \<and> map placeId [stopA, stopB] = map place_id [placeOf stopA, placeOf stopB]"
proof -
  have s: "searchNearbyPlaces oracleDown 34 (- 118) (15 * 1609.34) ''Taco Bell''
             = Inr [placeOf stopA, placeOf stopB]"
    by (simp add: oracleDown_def lookupServices_def)
  have d: "\<forall>k pid d. getPlaceDetails oracleDown k pid = Some d \<longrightarrow> details_place_id d = pid"
    by (simp add: oracleDown_def lookupServices_def details_echo)
  have p: "filter (\<lambda>p. isTacoBell p \<and> geometry p \<noteq> None) [placeOf stopA, placeOf stopB]
             = [placeOf stopA, placeOf stopB]"
    using isTacoBell_known by (simp add: placeOf_def)
  obtain found where "findTacoBells oracleDown 34 (- 118) 15 = Inr found"
    "map placeId found
       = map place_id (filter (\<lambda>p. isTacoBell p \<and> geometry p \<noteq> None) [placeOf stopA, placeOf stopB])"
    using findTacoBells_keeps_every_match [OF s] d by blast
  then show ?thesis using s unfolding p by (simp add: find_examples)
qed

text \<open>
  C8 as stated fails: when the lookup lists the same place twice, the returned list
  holds two stops with the same identifier.
\<close>

theorem findTacoBells_returns_duplicates:
  "findTacoBells duplicatedLookup 34 (- 118) 15 = Inr [stopA, stopA]
   \<and> \<not> distinct (map placeId [stopA, stopA])"
  by (simp add: find_examples)

text \<open>
  C9. The haversine distance is symmetric, \<open>d(a, b) = d(b, a)\<close>, and zero between a
  coordinate and itself, for every pair of coordinates.

  Under exact arithmetic it is (\<open>haversineExact_symmetric_zero\<close>). The code computes in
  doubles and does not clamp \<open>a\<close>. Between (-12, -180) and (12, 0), which are antipodal,
  the exact \<open>a\<close> is 1, and the doubles give 1.0000000000000002, that is 1 plus \<open>1 / 2^52\<close>:
  then \<^verbatim>\<open>Math.sqrt(1 - a)\<close> is \<^verbatim>\<open>NaN\<close>, the result is \<^verbatim>\<open>NaN\<close> in both directions, it is no
  distance, and the two results are not equal.
\<close>

theorem haversine_antipodal_is_NaN:
  "hav_central (- 12) (- 180) 12 0 = 1
   \<and> haversineDistance (1 / 2 ^ 52) (- 12) (- 180) 12 0 = NaN
   \<and> haversineDistance (1 / 2 ^ 52) 12 0 (- 12) (- 180) = NaN
   \<and> \<not> strictEquals (haversineDistance (1 / 2 ^ 52) (- 12) (- 180) 12 0)
          (haversineDistance (1 / 2 ^ 52) 12 0 (- 12) (- 180))"
  by (simp add: haversineDistance_computed hav_central_antipodal Let_def)

text \<open>
  C10. The generator only uses the stops of the pool within 24140 m (haversine) of the
  start, a constant of the generator that no configuration value enters: in every
  returned route, every stop other than the start is a pool member within 24140 m of
  the start, and no pool member farther away appears.
\<close>

theorem generated_stops_within_24140:
  assumes "wellFormedRandom rs"
    and "generateCandidateRoutes rs start allTacoBells targetKm nStops iterations = Inr routes"
    and "c \<in> set routes"
  shows "(\<forall>s \<in> set (stops c). s \<noteq> start \<longrightarrow>
            s \<in> set allTacoBells \<and> stopDistance start s \<le> 24140)
         \<and> (\<forall>p \<in> set allTacoBells. stopDistance start p > 24140 \<longrightarrow> p \<notin> set (stops c))"
proof -
  let ?nearby = "nearbyOf start allTacoBells"
  let ?Q = "\<lambda>rt. set rt \<subseteq> insert start (set ?nearby)"
  have "\<forall>c \<in> set routes. ?Q (stops c)"
  proof (rule generate_routes [OF assms(2)])
    fix iter grown
    assume "extendRoute rs iter targetKm nStops (shuffle rs iter ?nearby) [start] = Some grown"
    then obtain picks where "grown = [start] @ picks" "set picks \<subseteq> set (shuffle rs iter ?nearby)"
      using extendRoute_grows [of rs iter targetKm nStops "shuffle rs iter ?nearby" "[start]" grown]
      by auto
    then have "set grown \<subseteq> insert start (set ?nearby)"
      using shuffle_set [OF assms(1)] by auto
    then show "?Q (closeLoop start grown)" using closeLoop_set [of start grown] by auto
  qed
  then have sub: "set (stops c) \<subseteq> insert start (set ?nearby)" using assms(3) by blast
  have near: "s \<in> set allTacoBells \<and> stopDistance start s \<le> 24140" if "s \<in> set ?nearby" for s
    using that by (simp add: nearbyOf_def)
  have self: "stopDistance start start = 0"
    by (simp add: stopDistance_def haversine_arcsin hav_central_same)
  show ?thesis
  proof (intro conjI ballI impI)
    fix s assume "s \<in> set (stops c)" "s \<noteq> start"
    then have "s \<in> set ?nearby" using sub by auto
    then show "s \<in> set allTacoBells" "stopDistance start s \<le> 24140" using near by auto
  next
    fix p assume p: "p \<in> set allTacoBells" "stopDistance start p > 24140"
    show "p \<notin> set (stops c)"
    proof
      assume "p \<in> set (stops c)"
      then have "p = start \<or> p \<in> set ?nearby" using sub by auto
      then show False using p(2) self near [of p] by auto
    qed
  qed
qed

theorem generated_stops_within_24140_witness:
  "wellFormedRandom firstChoice
   \<and> generateCandidateRoutes firstChoice stopS [stopA, stopB, stopS] 50 3 200 = Inr [routeThree]
   \<and> routeThree \<in> set [routeThree]
   \<and> stopB \<in> set (stops routeThree) \<and> stopB \<noteq> stopS
   \<and> stopB \<in> set [stopA, stopB, stopS] \<and> stopDistance stopS stopB \<le> 24140"
proof -
  have m: "routeThree \<in> set [routeThree]" by simp
  have b: "stopB \<in> set (stops routeThree)" "stopB \<noteq> stopS"
    by (simp_all add: routeThree_def stopB_def stopS_def)
  have "\<forall>s \<in> set (stops routeThree). s \<noteq> stopS \<longrightarrow>
          s \<in> set [stopA, stopB, stopS] \<and> stopDistance stopS s \<le> 24140"
    using generated_stops_within_24140 [OF firstChoice_wellFormed generate_three m] by blast
  then have "stopB \<in> set [stopA, stopB, stopS] \<and> stopDistance stopS stopB \<le> 24140"
    using b by blast
  then show ?thesis using firstChoice_wellFormed generate_three m b by simp
qed

end
